theory Spec2Isabelle
  imports Main
begin

section \<open>The publish/subscribe dispatcher of openmdao.Model (Model.js, lines 1-130)\<close>

text \<open>
  The embedding follows \<^verbatim>\<open>openmdao.Model\<close> as it is written: the private variables
  \<^verbatim>\<open>outstream_socket\<close>, \<^verbatim>\<open>publisher_socket\<close> and \<^verbatim>\<open>subscribers\<close>, the functions
  \<^verbatim>\<open>open_websocket\<close>, \<^verbatim>\<open>open_outstream_socket\<close> (with its handler \<^verbatim>\<open>handle_output\<close>),
  \<^verbatim>\<open>open_publisher_socket\<close> (with its handler \<^verbatim>\<open>handle_message\<close>), \<^verbatim>\<open>addListener\<close> and
  \<^verbatim>\<open>updateListeners\<close>. The file has no strict-mode directive, so the semantics of
  sloppy-mode JavaScript applies: a write to an index of a primitive string is ignored,
  an assignment to an undeclared name creates a global variable, and a read of an
  undeclared name that no assignment created throws a ReferenceError.

  One instance of \<^verbatim>\<open>openmdao.Model\<close> is modelled. What the code does not define is a
  parameter: whether \<^verbatim>\<open>jQuery.parseJSON\<close> returns normally on a value, and whether a
  registered function throws when it is called. A registered function is opaque: the
  model records that it is called and with which arguments, and assumes that it does
  not call back into the model while a loop over the subscriber list is running.
  Calls of \<^verbatim>\<open>debug.info\<close> are not recorded; \<^verbatim>\<open>debug.error\<close> and \<^verbatim>\<open>jQuery.ajax\<close> are
  assumed to return normally. The counter \<^verbatim>\<open>i\<close> of the loops in the two handlers is an
  undeclared, hence global, variable; nothing in the file reads it outside its loop, and
  it is not part of the state. A fresh page is assumed to define no global variable named
  \<^verbatim>\<open>topic\<close>. Since a called function does not change the list that is being looped over,
  the loop over the indices of the list is a recursion over the list.
\<close>

subsection \<open>Values\<close>

text \<open>
  Data that a socket delivers or that an envelope holds: \<^verbatim>\<open>undefined\<close>, a primitive
  string, an array. A text frame of a WebSocket arrives as a primitive string
  (\<^verbatim>\<open>e.data\<close>); an array stands for an envelope that is already decoded. A character of
  a string is one code unit; the strings of the statements are ASCII.
\<close>

datatype jsdata = Undefined | Str string | Arr "jsdata list"

text \<open>
  What \<^verbatim>\<open>addListener\<close> may receive as its second argument and store in a subscriber
  list: a function (known by an identifier), or any other value.
  \<^verbatim>\<open>typeof v === 'function'\<close> holds for \<open>Fn\<close> only.
\<close>

datatype entry = Fn nat | Data jsdata

datatype exn = TypeError | ReferenceError | SyntaxError | Thrown nat

text \<open>The message handler that \<^verbatim>\<open>open_websocket\<close> receives: \<^verbatim>\<open>handle_output\<close> (a closure
  over the parameter \<^verbatim>\<open>topic\<close> of \<^verbatim>\<open>open_outstream_socket\<close>) or \<^verbatim>\<open>handle_message\<close>.\<close>

datatype handler = Handle_output string | Handle_message

text \<open>The observable effects, in the order in which they happen: a \<^verbatim>\<open>jQuery.ajax\<close> GET
  of a url (the directory lookup of \<^verbatim>\<open>open_websocket\<close>), a call of a registered function
  with its arguments, and a \<^verbatim>\<open>debug.error\<close> about an invalid callback (the topic it
  names and the entry).\<close>

datatype effect = AjaxGet string | Call nat "jsdata list" | DebugError string entry

record env =
  parse_ok :: "jsdata \<Rightarrow> bool"
  throws :: "nat \<Rightarrow> jsdata list \<Rightarrow> bool"

text \<open>
  The state: the three private variables of the closure, the implicit global variable
  \<^verbatim>\<open>topic\<close> (created by the \<^verbatim>\<open>for (topic in subscribers)\<close> of \<^verbatim>\<open>updateListeners\<close>, which
  declares only \<^verbatim>\<open>i\<close> and \<^verbatim>\<open>callbacks\<close>; \<open>None\<close> while no assignment has created it), the
  directory lookups in flight with the handler each will install, and the handlers
  installed as \<^verbatim>\<open>onmessage\<close> of an open socket.

  \<^verbatim>\<open>subscribers\<close> is an object used as a dictionary. Its own properties are kept as an
  association list in the order of their creation; \<open>for_in\<close> below gives the order in
  which \<^verbatim>\<open>for ... in\<close> visits them.
\<close>

record model =
  outstream_socket :: bool
  publisher_socket :: bool
  subscribers :: "(string \<times> entry list) list"
  global_topic :: "string option"
  lookups :: "(string \<times> handler) list"
  sockets :: "handler list"

type_synonym outcome = "effect list \<times> exn option \<times> model"

definition outstream_topic :: string where
  "outstream_topic = ''outstream''"

definition init_model :: model where
  "init_model = \<lparr>outstream_socket = False, publisher_socket = False, subscribers = [],
     global_topic = None, lookups = [], sockets = []\<rparr>"

definition emitted :: "outcome \<Rightarrow> effect list" where
  "emitted r = fst r"

definition raised :: "outcome \<Rightarrow> exn option" where
  "raised r = fst (snd r)"

definition final :: "outcome \<Rightarrow> model" where
  "final r = snd (snd r)"

subsection \<open>Property access\<close>

text \<open>
  \<^verbatim>\<open>subscribers = {}\<close> inherits from \<^verbatim>\<open>Object.prototype\<close>, and \<^verbatim>\<open>topic in subscribers\<close>
  looks through the prototype chain. These are the property names of
  \<^verbatim>\<open>Object.prototype\<close> (ECMAScript 5.1, 15.2.4, and the legacy names \<^verbatim>\<open>__proto__\<close>,
  \<^verbatim>\<open>__defineGetter__\<close>, ... that browsers define). None of them is enumerable, so
  \<^verbatim>\<open>for ... in\<close> does not visit them, and none holds an array.
\<close>

definition Object_prototype :: "string list" where
  "Object_prototype = [''constructor'', ''toString'', ''toLocaleString'', ''valueOf'',
     ''hasOwnProperty'', ''isPrototypeOf'', ''propertyIsEnumerable'', ''__proto__'',
     ''__defineGetter__'', ''__defineSetter__'', ''__lookupGetter__'', ''__lookupSetter__'']"

definition has_property :: "(string \<times> entry list) list \<Rightarrow> string \<Rightarrow> bool" where
  "has_property regs k \<longleftrightarrow> k \<in> fst ` set regs \<or> k \<in> set Object_prototype"

text \<open>\<^verbatim>\<open>Array.prototype.join\<close> with the separator of \<^verbatim>\<open>toString\<close>.\<close>

fun join :: "string list \<Rightarrow> string" where
  "join [] = []"
| "join [s] = s"
| "join (s # t # ss) = s @ '','' @ join (t # ss)"

text \<open>ToString: an array joins its elements, an \<^verbatim>\<open>undefined\<close> element giving the empty
  string.\<close>

fun to_string :: "jsdata \<Rightarrow> string" where
  "to_string Undefined = ''undefined''"
| "to_string (Str s) = s"
| "to_string (Arr vs) = join (map (\<lambda>v. if v = Undefined then [] else to_string v) vs)"

text \<open>\<^verbatim>\<open>message[0]\<close> read on a value that is not \<^verbatim>\<open>undefined\<close>: the first character of a
  string, the first element of an array, \<^verbatim>\<open>undefined\<close> when there is none.\<close>

fun elem0 :: "jsdata \<Rightarrow> jsdata" where
  "elem0 (Str []) = Undefined"
| "elem0 (Str (c # s)) = Str [c]"
| "elem0 (Arr []) = Undefined"
| "elem0 (Arr (v # vs)) = v"
| "elem0 Undefined = Undefined"

text \<open>\<^verbatim>\<open>message[0] = v\<close> in sloppy mode: stored in an array (which grows when it is empty),
  ignored without an error on a primitive string.\<close>

fun set0 :: "jsdata \<Rightarrow> jsdata \<Rightarrow> jsdata" where
  "set0 (Arr []) v = Arr [v]"
| "set0 (Arr (u # vs)) v = Arr (v # vs)"
| "set0 (Str s) v = Str s"
| "set0 Undefined v = Undefined"

subsection \<open>The order of enumeration\<close>

text \<open>
  \<^verbatim>\<open>for (topic in subscribers)\<close> visits the own properties whose names are array indices
  first, in ascending numeric order, and then the other properties in the order of their
  creation. An array index is the canonical decimal name of a number below \<open>2^32 - 1\<close>:
  digits only, no leading zero unless it is \<^verbatim>\<open>'0'\<close> itself.
\<close>

definition is_digit :: "char \<Rightarrow> bool" where
  "is_digit c \<longleftrightarrow> c \<in> set ''0123456789''"

definition digit_value :: "char \<Rightarrow> nat" where
  "digit_value c = of_char c - 48"

definition decimal :: "string \<Rightarrow> nat" where
  "decimal s = foldl (\<lambda>n c. 10 * n + digit_value c) 0 s"

definition is_array_index :: "string \<Rightarrow> bool" where
  "is_array_index s \<longleftrightarrow>
     s \<noteq> [] \<and> list_all is_digit s \<and> (length s = 1 \<or> hd s \<noteq> CHR ''0'')
     \<and> decimal s < 4294967295"

definition for_in :: "(string \<times> entry list) list \<Rightarrow> (string \<times> entry list) list" where
  "for_in regs =
     sort_key (\<lambda>(k, callbacks). decimal k) (filter (\<lambda>(k, callbacks). is_array_index k) regs) @
     filter (\<lambda>(k, callbacks). \<not> is_array_index k) regs"

subsection \<open>The loop over a subscriber list\<close>

text \<open>
  The same loop stands in \<^verbatim>\<open>handle_output\<close> (lines 50-57), \<^verbatim>\<open>handle_message\<close> (lines 71-78)
  and \<^verbatim>\<open>updateListeners\<close> (lines 119-127):
  \<^verbatim>\<open>
  for (i = 0; i < callbacks.length; i++) {
      if (typeof callbacks[i] === 'function') { callbacks[i](ARGS); }
      else { debug.error('Model: invalid callback function for topic:',topic,callbacks[i]); }
  }
  \<close>
  It differs in the arguments of the call and in what the name \<^verbatim>\<open>topic\<close> refers to:
  \<open>tp\<close> is the value of \<^verbatim>\<open>topic\<close> there, \<open>None\<close> when the name is not defined, in which
  case evaluating the arguments of \<^verbatim>\<open>debug.error\<close> throws a ReferenceError. There is no
  \<^verbatim>\<open>try\<close> in the file: an exception of a called function leaves the loop.
\<close>

fun invoke_callbacks ::
  "env \<Rightarrow> string option \<Rightarrow> jsdata list \<Rightarrow> entry list \<Rightarrow> effect list \<times> exn option" where
  "invoke_callbacks E tp args [] = ([], None)"
| "invoke_callbacks E tp args (Fn f # callbacks) =
     (if throws E f args then ([Call f args], Some (Thrown f))
      else (case invoke_callbacks E tp args callbacks of
              (effs, x) \<Rightarrow> (Call f args # effs, x)))"
| "invoke_callbacks E tp args (Data d # callbacks) =
     (case tp of
        None \<Rightarrow> ([], Some ReferenceError)
      | Some t \<Rightarrow>
          (case invoke_callbacks E tp args callbacks of
             (effs, x) \<Rightarrow> (DebugError t (Data d) # effs, x)))"

subsection \<open>Opening the channels\<close>

text \<open>\<^verbatim>\<open>open_websocket(url, message_handler)\<close>: issues the GET; the socket is created and
  the handler installed only when the lookup succeeds, later.\<close>

definition open_websocket :: "string \<Rightarrow> handler \<Rightarrow> model \<Rightarrow> effect list \<times> model" where
  "open_websocket url message_handler m =
     ([AjaxGet url], m\<lparr>lookups := lookups m @ [(url, message_handler)]\<rparr>)"

definition open_outstream_socket :: "string \<Rightarrow> model \<Rightarrow> effect list \<times> model" where
  "open_outstream_socket topic m = open_websocket ''outstream'' (Handle_output topic) m"

definition open_publisher_socket :: "model \<Rightarrow> effect list \<times> model" where
  "open_publisher_socket m = open_websocket ''pubstream'' Handle_message m"

subsection \<open>The handlers\<close>

text \<open>\<^verbatim>\<open>handle_output(data)\<close>: \<^verbatim>\<open>subscribers[topic]\<close> is read without a check, so
  \<^verbatim>\<open>callbacks.length\<close> throws a TypeError when the topic has no list. The only topic the
  code passes is \<^verbatim>\<open>'outstream'\<close>, which is not a name of \<^verbatim>\<open>Object.prototype\<close>.\<close>

definition handle_output :: "env \<Rightarrow> string \<Rightarrow> jsdata \<Rightarrow> model \<Rightarrow> outcome" where
  "handle_output E topic data m =
     (case map_of (subscribers m) topic of
        None \<Rightarrow> ([], Some TypeError, m)
      | Some callbacks \<Rightarrow>
          (case invoke_callbacks E (Some topic) [data] callbacks of
             (effs, x) \<Rightarrow> (effs, x, m)))"

text \<open>The registry key that \<^verbatim>\<open>handle_message\<close> looks up: \<^verbatim>\<open>message[0]\<close>, read again after
  the assignment \<^verbatim>\<open>message[0] = 'prob.'+message[0]\<close>, as a property name.\<close>

definition rewrite :: "jsdata \<Rightarrow> jsdata" where
  "rewrite message = set0 message (Str (''prob.'' @ to_string (elem0 message)))"

definition routing_key :: "jsdata \<Rightarrow> string" where
  "routing_key message = to_string (elem0 (rewrite message))"

text \<open>\<^verbatim>\<open>handle_message(message)\<close>: reading \<^verbatim>\<open>message[0]\<close> of \<^verbatim>\<open>undefined\<close> throws;
  \<^verbatim>\<open>jQuery.parseJSON(message)\<close> is evaluated for the log line and may throw; the name
  \<^verbatim>\<open>topic\<close> of the \<^verbatim>\<open>debug.error\<close> line is neither a parameter nor a variable of an
  enclosing function, so it is the global variable. The key is never a name of
  \<^verbatim>\<open>Object.prototype\<close> (lemma \<open>routing_key_not_inherited\<close>), so the lookup finds an own
  property or \<^verbatim>\<open>undefined\<close>.\<close>

definition handle_message :: "env \<Rightarrow> jsdata \<Rightarrow> model \<Rightarrow> outcome" where
  "handle_message E message m =
     (if message = Undefined then ([], Some TypeError, m)
      else if \<not> parse_ok E (rewrite message) then ([], Some SyntaxError, m)
      else
        (case map_of (subscribers m) (routing_key message) of
           None \<Rightarrow> ([], None, m)
         | Some callbacks \<Rightarrow>
             (case invoke_callbacks E (global_topic m) [rewrite message] callbacks of
                (effs, x) \<Rightarrow> (effs, x, m))))"

subsection \<open>The public operations\<close>

text \<open>\<^verbatim>\<open>subscribers[topic].push(callback)\<close> on an own property.\<close>

fun push :: "string \<Rightarrow> entry \<Rightarrow> (string \<times> entry list) list \<Rightarrow> (string \<times> entry list) list" where
  "push topic callback [] = []"
| "push topic callback ((k, callbacks) # regs) =
     (if k = topic then (k, callbacks @ [callback]) # regs
      else (k, callbacks) # push topic callback regs)"

text \<open>\<^verbatim>\<open>addListener(topic, callback)\<close>. When \<^verbatim>\<open>topic in subscribers\<close> holds through the
  prototype only, \<^verbatim>\<open>subscribers[topic]\<close> is not an array and has no \<^verbatim>\<open>push\<close>: the call
  throws a TypeError before anything is stored.\<close>

definition addListener :: "string \<Rightarrow> entry \<Rightarrow> model \<Rightarrow> outcome" where
  "addListener topic callback m =
     (if has_property (subscribers m) topic then
        (case map_of (subscribers m) topic of
           Some callbacks \<Rightarrow>
             ([], None, m\<lparr>subscribers := push topic callback (subscribers m)\<rparr>)
         | None \<Rightarrow> ([], Some TypeError, m))
      else
        (let m1 = m\<lparr>subscribers := subscribers m @ [(topic, [callback])]\<rparr>;
             (effs1, m2) =
               (if topic = outstream_topic \<and> \<not> outstream_socket m1
                then open_outstream_socket outstream_topic (m1\<lparr>outstream_socket := True\<rparr>)
                else ([], m1));
             (effs2, m3) =
               (if \<not> publisher_socket m2
                then open_publisher_socket (m2\<lparr>publisher_socket := True\<rparr>)
                else ([], m2))
         in (effs1 @ effs2, None, m3)))"

text \<open>\<^verbatim>\<open>updateListeners()\<close>: the loop \<^verbatim>\<open>for (topic in subscribers)\<close> over the own
  properties, in the order of \<open>for_in\<close>; each round assigns the global \<^verbatim>\<open>topic\<close>.
  \<open>update_topics\<close> is the body of the loop over the names still to visit.\<close>

fun update_topics :: "env \<Rightarrow> (string \<times> entry list) list \<Rightarrow> model \<Rightarrow> outcome" where
  "update_topics E [] m = ([], None, m)"
| "update_topics E ((topic, callbacks) # regs) m =
     (let m1 = m\<lparr>global_topic := Some topic\<rparr> in
      if topic \<noteq> outstream_topic then
        (case invoke_callbacks E (Some topic) [] callbacks of
           (effs, Some x) \<Rightarrow> (effs, Some x, m1)
         | (effs, None) \<Rightarrow>
             (case update_topics E regs m1 of
                (effs', r) \<Rightarrow> (effs @ effs', r)))
      else update_topics E regs m1)"

definition updateListeners :: "env \<Rightarrow> model \<Rightarrow> outcome" where
  "updateListeners E m = update_topics E (for_in (subscribers m)) m"

subsection \<open>Executions\<close>

text \<open>
  What can happen to a model: a consumer calls \<^verbatim>\<open>addListener\<close> or \<^verbatim>\<open>updateListeners\<close>; a
  directory lookup in flight succeeds (\<^verbatim>\<open>success\<close> creates the socket and installs
  \<^verbatim>\<open>onmessage\<close>) or fails (\<^verbatim>\<open>error\<close> only logs); an open socket delivers a message to its
  handler. An event that names a lookup or a socket that does not exist cannot happen
  and changes nothing. Each event is a task of its own: an exception ends the task, and
  the next event finds the state as the exception left it.
\<close>

datatype action =
    AddListener string entry
  | UpdateListeners
  | LookupSuccess nat
  | LookupError nat
  | SocketMessage nat jsdata

fun step :: "env \<Rightarrow> action \<Rightarrow> model \<Rightarrow> outcome" where
  "step E (AddListener topic callback) m = addListener topic callback m"
| "step E UpdateListeners m = updateListeners E m"
| "step E (LookupSuccess k) m =
     (if k < length (lookups m)
      then ([], None, m\<lparr>lookups := take k (lookups m) @ drop (Suc k) (lookups m),
                        sockets := sockets m @ [snd (lookups m ! k)]\<rparr>)
      else ([], None, m))"
| "step E (LookupError k) m =
     (if k < length (lookups m)
      then ([], None, m\<lparr>lookups := take k (lookups m) @ drop (Suc k) (lookups m)\<rparr>)
      else ([], None, m))"
| "step E (SocketMessage k data) m =
     (if k < length (sockets m)
      then (case sockets m ! k of
              Handle_output topic \<Rightarrow> handle_output E topic data m
            | Handle_message \<Rightarrow> handle_message E data m)
      else ([], None, m))"

fun run :: "env \<Rightarrow> action list \<Rightarrow> model \<Rightarrow> effect list \<times> model" where
  "run E [] m = ([], m)"
| "run E (a # acts) m =
     (case step E a m of
        (effs, x, m1) \<Rightarrow>
          (case run E acts m1 of (effs', m2) \<Rightarrow> (effs @ effs', m2)))"


subsection \<open>Vocabulary of the statements\<close>

text \<open>The effect of one round of the loop when nothing throws: the call of a function,
  the \<^verbatim>\<open>debug.error\<close> about any other entry.\<close>

fun report :: "string \<Rightarrow> jsdata list \<Rightarrow> entry \<Rightarrow> effect" where
  "report t args (Fn f) = Call f args"
| "report t args (Data d) = DebugError t (Data d)"

text \<open>No function of the list throws when it is called with these arguments.\<close>

definition returns :: "env \<Rightarrow> jsdata list \<Rightarrow> entry list \<Rightarrow> bool" where
  "returns E args cbs \<longleftrightarrow> (\<forall>f. Fn f \<in> set cbs \<longrightarrow> \<not> throws E f args)"

definition callable :: "entry \<Rightarrow> bool" where
  "callable e \<longleftrightarrow> (case e of Fn f \<Rightarrow> True | Data d \<Rightarrow> False)"

text \<open>The registry without the output topic, and what \<^verbatim>\<open>updateListeners\<close> emits over it
  when nothing throws.\<close>

definition subscribed :: "(string \<times> entry list) list \<Rightarrow> (string \<times> entry list) list" where
  "subscribed regs = filter (\<lambda>(t, cbs). t \<noteq> outstream_topic) regs"

definition broadcast :: "(string \<times> entry list) list \<Rightarrow> effect list" where
  "broadcast regs = concat (map (\<lambda>(t, cbs). map (report t []) cbs) (subscribed regs))"

definition all_return :: "env \<Rightarrow> (string \<times> entry list) list \<Rightarrow> bool" where
  "all_return E regs \<longleftrightarrow> (\<forall>(t, cbs) \<in> set (subscribed regs). returns E [] cbs)"

definition topics :: "model \<Rightarrow> string set" where
  "topics m = fst ` set (subscribers m)"

text \<open>The invariant of the executions: each flag is set exactly when the registration
  that sets it has happened, and every handler, installed or in flight, is
  \<^verbatim>\<open>handle_message\<close> or the \<^verbatim>\<open>handle_output\<close> of the output topic, the latter only once
  the output flag is set.\<close>

definition consistent :: "model \<Rightarrow> bool" where
  "consistent m \<longleftrightarrow>
     (outstream_socket m \<longleftrightarrow> outstream_topic \<in> topics m) \<and>
     (publisher_socket m \<longleftrightarrow> subscribers m \<noteq> []) \<and>
     list_all (\<lambda>h. h = Handle_message \<or> h = Handle_output outstream_topic \<and> outstream_socket m)
       (sockets m @ map snd (lookups m))"

definition is_add :: "action \<Rightarrow> bool" where
  "is_add a \<longleftrightarrow> (case a of AddListener t c \<Rightarrow> True | _ \<Rightarrow> False)"

text \<open>A call of \<^verbatim>\<open>addListener\<close> that registers: its topic is not a name of
  \<^verbatim>\<open>Object.prototype\<close> (with such a name the call throws, see \<open>addListener_inherited\<close>).\<close>

definition registration :: "action \<Rightarrow> bool" where
  "registration a \<longleftrightarrow> (case a of AddListener t c \<Rightarrow> t \<notin> set Object_prototype | _ \<Rightarrow> False)"

definition outstream_registration :: "action \<Rightarrow> bool" where
  "outstream_registration a \<longleftrightarrow> (case a of AddListener t c \<Rightarrow> t = outstream_topic | _ \<Rightarrow> False)"

text \<open>Two environments for concrete runs: in the first \<^verbatim>\<open>jQuery.parseJSON\<close> always returns and no
  function throws; in the second the function \<open>g\<close> throws on every call.\<close>

definition quiet :: env where
  "quiet = \<lparr>parse_ok = (\<lambda>message. True), throws = (\<lambda>f args. False)\<rparr>"

definition faulty :: "nat \<Rightarrow> env" where
  "faulty g = \<lparr>parse_ok = (\<lambda>message. True), throws = (\<lambda>f args. f = g)\<rparr>"

text \<open>The output flag is set only when the registry holds a list for the output topic.\<close>

definition outstream_ready :: "model \<Rightarrow> bool" where
  "outstream_ready m \<longleftrightarrow>
     (outstream_socket m \<longrightarrow> (\<exists>cbs. map_of (subscribers m) outstream_topic = Some cbs))"

section \<open>Lemmas\<close>

lemma set_for_in: "set (for_in regs) = set regs"
  by (auto simp: for_in_def)

lemma for_in_filter: "filter P (for_in regs) = for_in (filter P regs)"
  by (simp add: for_in_def filter_sort conj_commute)

lemma for_in_plain:
  "list_all (\<lambda>(k, callbacks). \<not> is_array_index k) regs \<Longrightarrow> for_in regs = regs"
  by (simp add: for_in_def list_all_iff split_def filter_id_conv)

lemma for_in_Nil: "for_in [] = []"
  by (simp add: for_in_def)

lemma subscribed_for_in: "subscribed (for_in regs) = for_in (subscribed regs)"
  by (simp add: subscribed_def for_in_filter)

lemma subscribed_idem: "subscribed (subscribed regs) = subscribed regs"
  by (simp add: subscribed_def)

lemma all_return_for_in: "all_return E (for_in regs) = all_return E regs"
  by (simp add: all_return_def subscribed_def set_for_in)

lemma returns_Cons: "returns E args (e # cbs) \<longleftrightarrow> (case e of Fn f \<Rightarrow> \<not> throws E f args | Data d \<Rightarrow> True) \<and> returns E args cbs"
  by (auto simp: returns_def split: entry.splits)

lemma returns_Nil: "returns E args []"
  by (simp add: returns_def)

lemma returns_append: "returns E args (xs @ ys) \<longleftrightarrow> returns E args xs \<and> returns E args ys"
  by (auto simp: returns_def)

lemma invoke_all:
  "returns E args cbs \<Longrightarrow> invoke_callbacks E (Some t) args cbs = (map (report t args) cbs, None)"
proof (induction cbs)
  case Nil
  show ?case by simp
next
  case (Cons e cbs)
  then show ?case by (cases e) (simp_all add: returns_Cons)
qed

lemma invoke_all_callable:
  "returns E args cbs \<Longrightarrow> list_all callable cbs \<Longrightarrow> invoke_callbacks E tp args cbs = (map (report t args) cbs, None)"
proof (induction cbs)
  case Nil
  show ?case by simp
next
  case (Cons e cbs)
  then show ?case by (cases e) (simp_all add: returns_Cons callable_def)
qed

lemma invoke_append:
  "invoke_callbacks E tp args (xs @ ys) =
     (case invoke_callbacks E tp args xs of
        (effs, Some x) \<Rightarrow> (effs, Some x)
      | (effs, None) \<Rightarrow> (case invoke_callbacks E tp args ys of (effs', r) \<Rightarrow> (effs @ effs', r)))"
proof (induction xs)
  case Nil
  show ?case by (simp split: prod.splits)
next
  case (Cons e xs)
  then show ?case by (cases e) (auto split: prod.splits option.splits)
qed

lemma invoke_stops:
  assumes "returns E args pre" and "throws E f args"
  shows "invoke_callbacks E (Some t) args (pre @ Fn f # post) = (map (report t args) pre @ [Call f args], Some (Thrown f))"
  using assms by (simp add: invoke_append invoke_all)

lemma invoke_stops_callable:
  assumes "returns E args pre" and "list_all callable pre" and "throws E f args"
  shows "invoke_callbacks E tp args (pre @ Fn f # post) = (map (report t args) pre @ [Call f args], Some (Thrown f))"
  using assms by (simp add: invoke_append invoke_all_callable[where t=t])

lemma invoke_no_ajax: "AjaxGet u \<notin> set (fst (invoke_callbacks E tp args cbs))"
proof (induction cbs)
  case Nil
  show ?case by simp
next
  case (Cons e cbs)
  then show ?case by (cases e) (auto split: prod.splits option.splits)
qed

lemma update_topics_emitted_indep:
  "fst (update_topics E regs m) = fst (update_topics E (subscribed regs) m')"
proof (induction regs arbitrary: m m')
  case Nil
  show ?case by (simp add: subscribed_def)
next
  case (Cons p regs)
  obtain t cbs where p: "p = (t, cbs)" by (cases p)
  show ?case
  proof (cases "t = outstream_topic")
    case True
    then show ?thesis using Cons.IH[of "m\<lparr>global_topic := Some t\<rparr>" m'] p
      by (simp add: subscribed_def)
  next
    case False
    have ih: "fst (update_topics E regs (m\<lparr>global_topic := Some t\<rparr>)) =
          fst (update_topics E (subscribed regs) (m'\<lparr>global_topic := Some t\<rparr>))"
      by (rule Cons.IH)
    show ?thesis using False p ih
      by (auto simp: subscribed_def Let_def split: prod.splits option.splits)
  qed
qed

lemma update_topics_append:
  "update_topics E (xs @ ys) m =
     (case update_topics E xs m of
        (effs, Some x, m1) \<Rightarrow> (effs, Some x, m1)
      | (effs, None, m1) \<Rightarrow> (case update_topics E ys m1 of (effs', r) \<Rightarrow> (effs @ effs', r)))"
proof (induction xs arbitrary: m)
  case Nil
  show ?case by (simp split: prod.splits)
next
  case (Cons p xs)
  obtain t cbs where p: "p = (t, cbs)" by (cases p)
  show ?case using Cons.IH[of "m\<lparr>global_topic := Some t\<rparr>"] p
    by (auto simp: Let_def split: prod.splits option.splits)
qed

lemma update_topics_all:
  "all_return E regs \<Longrightarrow>
     fst (update_topics E regs m) = broadcast regs \<and> fst (snd (update_topics E regs m)) = None"
proof (induction regs arbitrary: m)
  case Nil
  show ?case by (simp add: broadcast_def subscribed_def)
next
  case (Cons p regs)
  obtain t cbs where p: "p = (t, cbs)" by (cases p)
  have ar: "all_return E regs" using Cons.prems by (auto simp: all_return_def subscribed_def)
  note ih = Cons.IH[OF ar, of "m\<lparr>global_topic := Some t\<rparr>"]
  show ?case
  proof (cases "t = outstream_topic")
    case True
    then show ?thesis using ih p by (simp add: broadcast_def subscribed_def)
  next
    case False
    then have "returns E [] cbs" using Cons.prems p by (auto simp: all_return_def subscribed_def)
    then show ?thesis using ih p False
      by (auto simp: broadcast_def subscribed_def invoke_all Let_def split: prod.splits)
  qed
qed

lemma update_topics_stops:
  assumes "all_return E before" and "t \<noteq> outstream_topic" and "returns E [] pre" and "throws E f []"
  shows "fst (update_topics E (before @ (t, pre @ Fn f # post) # after) m) =
           broadcast before @ map (report t []) pre @ [Call f []]
       \<and> fst (snd (update_topics E (before @ (t, pre @ Fn f # post) # after) m)) = Some (Thrown f)"
proof -
  obtain m1 where b: "update_topics E before m = (broadcast before, None, m1)"
    using update_topics_all[OF assms(1), of m] by (cases "update_topics E before m") auto
  show ?thesis using assms(2-4) b
    by (simp add: update_topics_append invoke_stops Let_def)
qed

lemma outstream_not_inherited: "outstream_topic \<notin> set Object_prototype"
  by (simp add: outstream_topic_def Object_prototype_def)

lemma rewrite_Str: "rewrite (Str s) = Str s"
  by (simp add: rewrite_def)

lemma rewrite_Arr: "rewrite (Arr vs) = Arr (Str (''prob.'' @ to_string (elem0 (Arr vs))) # tl vs)"
  by (cases vs) (simp_all add: rewrite_def)

lemma routing_key_Str: "routing_key (Str s) = (case s of [] \<Rightarrow> ''undefined'' | c # r \<Rightarrow> [c])"
  by (cases s) (simp_all add: routing_key_def rewrite_def)

lemma routing_key_Arr: "routing_key (Arr vs) = ''prob.'' @ to_string (elem0 (Arr vs))"
  by (cases vs) (simp_all add: routing_key_def rewrite_def)

lemma routing_key_not_inherited: "routing_key message \<notin> set Object_prototype"
proof (cases message)
  case Undefined
  then show ?thesis by (simp add: routing_key_def rewrite_def Object_prototype_def)
next
  case (Str s)
  then show ?thesis by (cases s) (simp_all add: routing_key_Str Object_prototype_def)
next
  case (Arr vs)
  then show ?thesis by (simp add: routing_key_Arr Object_prototype_def)
qed

lemma text_frame_key: "routing_key (Str s) \<noteq> ''prob.'' @ S"
  by (cases s) (simp_all add: routing_key_Str)

lemma map_of_push_same:
  "map_of regs t = Some l \<Longrightarrow> map_of (push t c regs) t = Some (l @ [c])"
  by (induction regs) (auto split: if_splits)

lemma map_of_push_other:
  "k \<noteq> t \<Longrightarrow> map_of (push t c regs) k = map_of regs k"
  by (induction regs) auto

lemma topics_push: "map fst (push t c regs) = map fst regs"
  by (induction regs) auto

lemma push_Nil_iff: "push t c regs = [] \<longleftrightarrow> regs = []"
  by (cases regs) (auto split: if_splits)

lemma addListener_inherited:
  "t \<in> set Object_prototype \<Longrightarrow> t \<notin> fst ` set (subscribers m) \<Longrightarrow> addListener t c m = ([], Some TypeError, m)"
  by (simp add: addListener_def has_property_def map_of_eq_None_iff[THEN iffD2])

lemma addListener_existing:
  "map_of (subscribers m) t = Some l \<Longrightarrow>
     addListener t c m = ([], None, m\<lparr>subscribers := push t c (subscribers m)\<rparr>)"
  by (auto simp: addListener_def has_property_def map_of_eq_None_iff[symmetric])

lemma addListener_fresh:
  "t \<notin> set Object_prototype \<Longrightarrow> t \<notin> fst ` set (subscribers m) \<Longrightarrow>
     addListener t c m =
       ((if t = outstream_topic \<and> \<not> outstream_socket m then [AjaxGet ''outstream''] else []) @
        (if \<not> publisher_socket m then [AjaxGet ''pubstream''] else []),
        None,
        m\<lparr>subscribers := subscribers m @ [(t, [c])],
          outstream_socket := outstream_socket m \<or> t = outstream_topic,
          publisher_socket := True,
          lookups := lookups m @
            (if t = outstream_topic \<and> \<not> outstream_socket m then [(''outstream'', Handle_output outstream_topic)] else []) @
            (if \<not> publisher_socket m then [(''pubstream'', Handle_message)] else [])\<rparr>)"
  by (auto simp: addListener_def has_property_def Let_def open_outstream_socket_def
      open_publisher_socket_def open_websocket_def)

lemma addListener_cases:
  obtains (inherited) "t \<in> set Object_prototype" "t \<notin> fst ` set (subscribers m)"
  | (existing) l where "map_of (subscribers m) t = Some l"
  | (fresh) "t \<notin> set Object_prototype" "t \<notin> fst ` set (subscribers m)"
  by (cases "map_of (subscribers m) t") (auto simp: map_of_eq_None_iff)

lemma consistent_init: "consistent init_model"
  by (simp add: consistent_def init_model_def topics_def)

lemma update_topics_no_ajax: "AjaxGet u \<notin> set (fst (update_topics E regs m))"
proof (induction regs arbitrary: m)
  case Nil
  show ?case by simp
next
  case (Cons p regs)
  obtain t cbs where p: "p = (t, cbs)" by (cases p)
  have a: "AjaxGet u \<notin> set (fst (invoke_callbacks E (Some t) [] cbs))" by (rule invoke_no_ajax)
  show ?case using Cons.IH[of "m\<lparr>global_topic := Some t\<rparr>"] p a
    by (auto simp: Let_def split: prod.splits option.splits)
qed

lemma update_topics_final: "\<exists>g. snd (snd (update_topics E regs m)) = m\<lparr>global_topic := g\<rparr>"
proof (induction regs arbitrary: m)
  case Nil
  have "m = m\<lparr>global_topic := global_topic m\<rparr>" by simp
  then show ?case by (metis update_topics.simps(1) snd_conv)
next
  case (Cons p regs)
  obtain t cbs where p: "p = (t, cbs)" by (cases p)
  obtain g where g: "snd (snd (update_topics E regs (m\<lparr>global_topic := Some t\<rparr>))) = m\<lparr>global_topic := g\<rparr>"
    using Cons.IH[of "m\<lparr>global_topic := Some t\<rparr>"] by auto
  show ?case
  proof (cases "t \<noteq> outstream_topic \<and> snd (invoke_callbacks E (Some t) [] cbs) \<noteq> None")
    case True
    then show ?thesis using p by (auto simp: Let_def split: prod.splits option.splits)
  next
    case False
    then have "snd (snd (update_topics E (p # regs) m)) = m\<lparr>global_topic := g\<rparr>"
      using p g by (auto simp: Let_def split: prod.splits option.splits)
    then show ?thesis by blast
  qed
qed

lemma handle_output_final: "snd (snd (handle_output E t d m)) = m"
  by (simp add: handle_output_def split: option.splits prod.splits)

lemma handle_message_final: "snd (snd (handle_message E d m)) = m"
  by (simp add: handle_message_def split: option.splits prod.splits)

lemma invoke_no_ajax_eq: "invoke_callbacks E tp args cbs = (effs, x) \<Longrightarrow> AjaxGet u \<notin> set effs"
  using invoke_no_ajax[of u E tp args cbs] by simp

lemma topics_push_set: "fst ` set (push t c regs) = fst ` set regs"
  using topics_push[of t c regs] by (metis set_map)

lemma handle_output_no_ajax: "AjaxGet u \<notin> set (fst (handle_output E t d m))"
  by (auto simp: handle_output_def split: option.splits prod.splits dest: invoke_no_ajax_eq)

lemma handle_message_no_ajax: "AjaxGet u \<notin> set (fst (handle_message E d m))"
  by (auto simp: handle_message_def split: option.splits prod.splits dest: invoke_no_ajax_eq)

lemma step_other_no_ajax: "\<not> is_add a \<Longrightarrow> AjaxGet u \<notin> set (fst (step E a m))"
proof (cases a)
  case (AddListener t c)
  assume "\<not> is_add a"
  with AddListener show ?thesis by (simp add: is_add_def)
next
  case UpdateListeners
  then show ?thesis by (simp add: updateListeners_def update_topics_no_ajax)
next
  case (LookupSuccess k)
  then show ?thesis by simp
next
  case (LookupError k)
  then show ?thesis by simp
next
  case (SocketMessage k d)
  then show ?thesis
    by (simp add: handle_output_no_ajax handle_message_no_ajax split: handler.splits)
qed

lemma step_other_state:
  assumes "\<not> is_add a"
  shows "subscribers (snd (snd (step E a m))) = subscribers m
       \<and> outstream_socket (snd (snd (step E a m))) = outstream_socket m
       \<and> publisher_socket (snd (snd (step E a m))) = publisher_socket m
       \<and> set (sockets (snd (snd (step E a m))) @ map snd (lookups (snd (snd (step E a m)))))
           \<subseteq> set (sockets m @ map snd (lookups m))"
proof (cases a)
  case (AddListener t c)
  with assms show ?thesis by (simp add: is_add_def)
next
  case UpdateListeners
  obtain g where
    "snd (snd (update_topics E (for_in (subscribers m)) m)) = m\<lparr>global_topic := g\<rparr>"
    using update_topics_final by blast
  with UpdateListeners show ?thesis by (simp add: updateListeners_def)
next
  case (LookupSuccess k)
  have "set (take k (lookups m)) \<subseteq> set (lookups m)" "set (drop (Suc k) (lookups m)) \<subseteq> set (lookups m)"
    by (rule set_take_subset, rule set_drop_subset)
  then show ?thesis using LookupSuccess by (auto simp: nth_mem)
next
  case (LookupError k)
  have "set (take k (lookups m)) \<subseteq> set (lookups m)" "set (drop (Suc k) (lookups m)) \<subseteq> set (lookups m)"
    by (rule set_take_subset, rule set_drop_subset)
  then show ?thesis using LookupError by auto
next
  case (SocketMessage k d)
  then show ?thesis
    by (simp add: handle_output_final handle_message_final split: handler.splits)
qed

lemma consistent_step: "consistent m \<Longrightarrow> consistent (snd (snd (step E a m)))"
proof (cases "is_add a")
  case False
  assume w: "consistent m"
  from step_other_state[OF False, of E m] w show ?thesis
    unfolding consistent_def topics_def list_all_iff by (auto simp del: set_append)
next
  case True
  assume w: "consistent m"
  from True obtain t c where a: "a = AddListener t c" by (cases a) (auto simp: is_add_def)
  show ?thesis
  proof (cases t m rule: addListener_cases)
    case inherited
    then show ?thesis using w a by (simp add: addListener_inherited)
  next
    case (existing l)
    then have "subscribers m \<noteq> []" by auto
    then show ?thesis using w a existing
      by (auto simp: addListener_existing consistent_def topics_def push_Nil_iff topics_push_set list_all_iff)
  next
    case fresh
    then show ?thesis using w a
      by (auto simp: addListener_fresh consistent_def topics_def list_all_iff)
  qed
qed

lemma run_append:
  "run E (xs @ ys) m =
     (case run E xs m of (e1, m1) \<Rightarrow> (case run E ys m1 of (e2, m2) \<Rightarrow> (e1 @ e2, m2)))"
  by (induction xs arbitrary: m) (auto split: prod.splits)

lemma run_Cons_fst:
  "fst (run E (a # acts) m) = fst (step E a m) @ fst (run E acts (snd (snd (step E a m))))"
  by (simp split: prod.splits)

lemma run_Cons_snd:
  "snd (run E (a # acts) m) = snd (run E acts (snd (snd (step E a m))))"
  by (simp split: prod.splits)

lemma map_of_Some_key: "map_of regs t = Some l \<Longrightarrow> t \<in> fst ` set regs"
  by (metis map_of_eq_None_iff option.distinct(1))

lemma consistent_run: "consistent m \<Longrightarrow> consistent (snd (run E acts m))"
proof (induction acts arbitrary: m)
  case Nil
  then show ?case by simp
next
  case (Cons a acts)
  have "consistent (snd (snd (step E a m)))" using Cons.prems by (rule consistent_step)
  from Cons.IH[OF this] show ?case by (simp only: run_Cons_snd)
qed

lemma step_outstream_count:
  assumes "consistent m"
  shows "count_list (fst (step E a m)) (AjaxGet ''outstream'') =
           (if outstream_registration a \<and> outstream_topic \<notin> topics m then 1 else 0)"
proof (cases "is_add a")
  case False
  then have "AjaxGet ''outstream'' \<notin> set (fst (step E a m))" by (rule step_other_no_ajax)
  moreover have "\<not> outstream_registration a"
    using False by (cases a) (simp_all add: is_add_def outstream_registration_def)
  ultimately show ?thesis by (simp add: count_list_0_iff)
next
  case True
  then obtain t c where a: "a = AddListener t c" by (cases a) (auto simp: is_add_def)
  show ?thesis
  proof (cases t m rule: addListener_cases)
    case inherited
    then show ?thesis using a outstream_not_inherited
      by (auto simp: addListener_inherited outstream_registration_def)
  next
    case (existing l)
    then have "t \<in> topics m" by (simp add: topics_def map_of_Some_key)
    then show ?thesis using a existing
      by (auto simp: addListener_existing outstream_registration_def)
  next
    case fresh
    then show ?thesis using a assms
      by (auto simp: addListener_fresh outstream_registration_def consistent_def topics_def)
  qed
qed

lemma step_outstream_key:
  "outstream_topic \<in> topics (snd (snd (step E a m))) \<longleftrightarrow>
     outstream_topic \<in> topics m \<or> outstream_registration a"
proof (cases "is_add a")
  case False
  then have "\<not> outstream_registration a"
    by (cases a) (simp_all add: is_add_def outstream_registration_def)
  then show ?thesis using step_other_state[OF False, of E m] by (simp add: topics_def)
next
  case True
  then obtain t c where a: "a = AddListener t c" by (cases a) (auto simp: is_add_def)
  show ?thesis
  proof (cases t m rule: addListener_cases)
    case inherited
    then show ?thesis using a outstream_not_inherited
      by (auto simp: addListener_inherited outstream_registration_def)
  next
    case (existing l)
    then have "t \<in> topics m" by (simp add: topics_def map_of_Some_key)
    then show ?thesis using a existing
      by (cases "t = outstream_topic")
         (simp_all add: addListener_existing outstream_registration_def topics_def topics_push_set)
  next
    case fresh
    then show ?thesis using a
      by (auto simp: addListener_fresh outstream_registration_def topics_def)
  qed
qed

lemma run_outstream_count:
  "consistent m \<Longrightarrow>
     count_list (fst (run E acts m)) (AjaxGet ''outstream'') =
       (if outstream_topic \<notin> topics m \<and> list_ex outstream_registration acts then 1 else 0)"
proof (induction acts arbitrary: m)
  case Nil
  show ?case by simp
next
  case (Cons a acts)
  have w: "consistent (snd (snd (step E a m)))" using Cons.prems by (rule consistent_step)
  show ?case
    using Cons.IH[OF w] step_outstream_count[OF Cons.prems, of E a] step_outstream_key[of E a m]
    by (auto simp only: run_Cons_fst run_Cons_snd count_list_append list_ex_Cons_iff split: if_splits)
qed

lemma step_publisher_count:
  assumes "consistent m"
  shows "count_list (fst (step E a m)) (AjaxGet ''pubstream'') =
           (if registration a \<and> subscribers m = [] then 1 else 0)"
proof (cases "is_add a")
  case False
  then have "AjaxGet ''pubstream'' \<notin> set (fst (step E a m))" by (rule step_other_no_ajax)
  moreover have "\<not> registration a"
    using False by (cases a) (simp_all add: is_add_def registration_def)
  ultimately show ?thesis by (simp add: count_list_0_iff)
next
  case True
  then obtain t c where a: "a = AddListener t c" by (cases a) (auto simp: is_add_def)
  show ?thesis
  proof (cases t m rule: addListener_cases)
    case inherited
    then show ?thesis using a by (auto simp: addListener_inherited registration_def)
  next
    case (existing l)
    then have "subscribers m \<noteq> []" by auto
    then show ?thesis using a existing by (auto simp: addListener_existing)
  next
    case fresh
    then show ?thesis using a assms
      by (auto simp: addListener_fresh registration_def consistent_def)
  qed
qed

lemma step_publisher_key:
  "subscribers (snd (snd (step E a m))) \<noteq> [] \<longleftrightarrow> subscribers m \<noteq> [] \<or> registration a"
proof (cases "is_add a")
  case False
  then have "\<not> registration a"
    by (cases a) (simp_all add: is_add_def registration_def)
  then show ?thesis using step_other_state[OF False, of E m] by simp
next
  case True
  then obtain t c where a: "a = AddListener t c" by (cases a) (auto simp: is_add_def)
  show ?thesis
  proof (cases t m rule: addListener_cases)
    case inherited
    then show ?thesis using a by (auto simp: addListener_inherited registration_def)
  next
    case (existing l)
    then have "subscribers m \<noteq> []" by auto
    then show ?thesis using a existing by (auto simp: addListener_existing push_Nil_iff)
  next
    case fresh
    then show ?thesis using a by (auto simp: addListener_fresh registration_def)
  qed
qed

lemma run_publisher_count:
  "consistent m \<Longrightarrow>
     count_list (fst (run E acts m)) (AjaxGet ''pubstream'') =
       (if subscribers m = [] \<and> list_ex registration acts then 1 else 0)"
proof (induction acts arbitrary: m)
  case Nil
  show ?case by simp
next
  case (Cons a acts)
  have w: "consistent (snd (snd (step E a m)))" using Cons.prems by (rule consistent_step)
  show ?case
    using Cons.IH[OF w] step_publisher_count[OF Cons.prems, of E a] step_publisher_key[of E a m]
    by (auto simp only: run_Cons_fst run_Cons_snd count_list_append list_ex_Cons_iff split: if_splits)
qed

lemma run_outstream_key:
  "outstream_topic \<in> topics (snd (run E acts m)) \<longleftrightarrow>
     outstream_topic \<in> topics m \<or> list_ex outstream_registration acts"
proof (induction acts arbitrary: m)
  case Nil
  show ?case by simp
next
  case (Cons a acts)
  show ?case using Cons.IH[of "snd (snd (step E a m))"] step_outstream_key[of E a m]
    by (auto simp only: run_Cons_fst run_Cons_snd count_list_append list_ex_Cons_iff split: if_splits)
qed

lemma run_publisher_key:
  "subscribers (snd (run E acts m)) \<noteq> [] \<longleftrightarrow> subscribers m \<noteq> [] \<or> list_ex registration acts"
proof (induction acts arbitrary: m)
  case Nil
  show ?case by simp
next
  case (Cons a acts)
  show ?case using Cons.IH[of "snd (snd (step E a m))"] step_publisher_key[of E a m]
    by (auto simp only: run_Cons_fst run_Cons_snd count_list_append list_ex_Cons_iff split: if_splits)
qed

lemma invoke_calls:
  "Call f a \<in> set (fst (invoke_callbacks E tp args cbs)) \<Longrightarrow> Fn f \<in> set cbs \<and> a = args"
proof (induction cbs)
  case Nil
  then show ?case by simp
next
  case (Cons e cbs)
  then show ?case by (cases e) (auto split: prod.splits option.splits if_splits)
qed

lemma invoke_not_TypeError: "snd (invoke_callbacks E tp args cbs) \<noteq> Some TypeError"
proof (induction cbs)
  case Nil
  show ?case by simp
next
  case (Cons e cbs)
  then show ?case by (cases e) (auto split: prod.splits option.splits)
qed

lemma update_topics_calls:
  "Call f a \<in> set (fst (update_topics E regs m)) \<Longrightarrow>
     a = [] \<and> (\<exists>t cbs. (t, cbs) \<in> set regs \<and> t \<noteq> outstream_topic \<and> Fn f \<in> set cbs)"
proof (induction regs arbitrary: m)
  case Nil
  then show ?case by simp
next
  case (Cons p regs)
  obtain t cbs where p: "p = (t, cbs)" by (cases p)
  let ?m1 = "m\<lparr>global_topic := Some t\<rparr>"
  show ?case
  proof (cases "t = outstream_topic")
    case True
    then have "Call f a \<in> set (fst (update_topics E regs ?m1))"
      using Cons.prems p by simp
    from Cons.IH[OF this] show ?thesis by auto
  next
    case False
    then have "Call f a \<in> set (fst (invoke_callbacks E (Some t) [] cbs))
        \<or> Call f a \<in> set (fst (update_topics E regs ?m1))"
      using Cons.prems p by (auto simp: Let_def split: prod.splits option.splits)
    then show ?thesis
    proof
      assume "Call f a \<in> set (fst (invoke_callbacks E (Some t) [] cbs))"
      from invoke_calls[OF this] show ?thesis using p False by auto
    next
      assume "Call f a \<in> set (fst (update_topics E regs ?m1))"
      from Cons.IH[OF this] show ?thesis by auto
    qed
  qed
qed

lemma addListener_appends:
  assumes "t \<notin> set Object_prototype"
  shows "fst (snd (addListener t c m)) = None \<and>
         map_of (subscribers (snd (snd (addListener t c m)))) t =
           Some ((case map_of (subscribers m) t of None \<Rightarrow> [] | Some l \<Rightarrow> l) @ [c])"
proof (cases t m rule: addListener_cases)
  case inherited
  with assms show ?thesis by simp
next
  case (existing l)
  then show ?thesis by (simp add: addListener_existing map_of_push_same)
next
  case fresh
  then have "map_of (subscribers m) t = None" by (simp add: map_of_eq_None_iff)
  then show ?thesis using fresh by (simp add: addListener_fresh map_add_def)
qed

lemma addListener_other_topic:
  "k \<noteq> t \<Longrightarrow> map_of (subscribers (snd (snd (addListener t c m)))) k = map_of (subscribers m) k"
proof (cases t m rule: addListener_cases)
  case inherited
  then show ?thesis by (simp add: addListener_inherited)
next
  case (existing l)
  assume "k \<noteq> t"
  then show ?thesis using existing by (simp add: addListener_existing map_of_push_other)
next
  case fresh
  assume "k \<noteq> t"
  then show ?thesis using fresh by (simp add: addListener_fresh map_add_def split: option.splits)
qed

lemma handle_output_all:
  "map_of (subscribers m) t = Some cbs \<Longrightarrow> returns E [d] cbs \<Longrightarrow>
     handle_output E t d m = (map (report t [d]) cbs, None, m)"
  by (simp add: handle_output_def invoke_all)

lemma handle_message_all:
  "message \<noteq> Undefined \<Longrightarrow> parse_ok E (rewrite message) \<Longrightarrow>
   map_of (subscribers m) (routing_key message) = Some cbs \<Longrightarrow>
   returns E [rewrite message] cbs \<Longrightarrow> list_all callable cbs \<Longrightarrow>
     handle_message E message m = (map (report t [rewrite message]) cbs, None, m)"
  by (simp add: handle_message_def invoke_all_callable[where t = t])

lemma broadcast_append: "broadcast (xs @ ys) = broadcast xs @ broadcast ys"
  by (simp add: broadcast_def subscribed_def)

lemma broadcast_Cons:
  "broadcast ((t, cbs) # regs) = (if t = outstream_topic then [] else map (report t []) cbs) @ broadcast regs"
  by (simp add: broadcast_def subscribed_def)

lemma consistent_outstream_first:
  assumes "consistent m" and "outstream_topic \<notin> topics m"
    and "\<not> list_ex outstream_registration pre" and "outstream_registration a"
  shows "AjaxGet ''outstream'' \<notin> set (fst (run E pre m))
       \<and> count_list (fst (step E a (snd (run E pre m)))) (AjaxGet ''outstream'') = 1
       \<and> AjaxGet ''outstream'' \<notin> set (fst (run E post (snd (snd (step E a (snd (run E pre m)))))))"
proof -
  let ?m1 = "snd (run E pre m)"
  let ?m2 = "snd (snd (step E a ?m1))"
  have c1: "consistent ?m1" using assms(1) by (rule consistent_run)
  have c2: "consistent ?m2" using c1 by (rule consistent_step)
  have k1: "outstream_topic \<notin> topics ?m1" using assms(2,3) by (simp add: run_outstream_key)
  have k2: "outstream_topic \<in> topics ?m2" using assms(4) by (simp add: step_outstream_key)
  have "count_list (fst (run E pre m)) (AjaxGet ''outstream'') = 0"
    using run_outstream_count[OF assms(1), of E pre] assms(3) by simp
  moreover have "count_list (fst (step E a ?m1)) (AjaxGet ''outstream'') = 1"
    using step_outstream_count[OF c1, of E a] k1 assms(4) by simp
  moreover have "count_list (fst (run E post ?m2)) (AjaxGet ''outstream'') = 0"
    using run_outstream_count[OF c2, of E post] k2 by simp
  ultimately show ?thesis by (simp add: count_list_0_iff)
qed

lemma consistent_publisher_first:
  assumes "consistent m" and "subscribers m = []"
    and "\<not> list_ex registration pre" and "registration a"
  shows "AjaxGet ''pubstream'' \<notin> set (fst (run E pre m))
       \<and> count_list (fst (step E a (snd (run E pre m)))) (AjaxGet ''pubstream'') = 1
       \<and> AjaxGet ''pubstream'' \<notin> set (fst (run E post (snd (snd (step E a (snd (run E pre m)))))))"
proof -
  let ?m1 = "snd (run E pre m)"
  let ?m2 = "snd (snd (step E a ?m1))"
  have c1: "consistent ?m1" using assms(1) by (rule consistent_run)
  have c2: "consistent ?m2" using c1 by (rule consistent_step)
  have k1: "subscribers ?m1 = []" using assms(2,3) run_publisher_key[of E pre m] by simp
  have k2: "subscribers ?m2 \<noteq> []" using assms(4) by (simp add: step_publisher_key)
  have "count_list (fst (run E pre m)) (AjaxGet ''pubstream'') = 0"
    using run_publisher_count[OF assms(1), of E pre] assms(3) by simp
  moreover have "count_list (fst (step E a ?m1)) (AjaxGet ''pubstream'') = 1"
    using step_publisher_count[OF c1, of E a] k1 assms(4) by simp
  moreover have "count_list (fst (run E post ?m2)) (AjaxGet ''pubstream'') = 0"
    using run_publisher_count[OF c2, of E post] k2 by simp
  ultimately show ?thesis by (simp add: count_list_0_iff)
qed

lemma idle_step:
  assumes "\<not> is_add a" and "subscribers m = []" and "sockets m = []" and "lookups m = []"
  shows "fst (step E a m) = [] \<and> subscribers (snd (snd (step E a m))) = []
       \<and> sockets (snd (snd (step E a m))) = [] \<and> lookups (snd (snd (step E a m))) = []"
proof (cases a)
  case (AddListener t c)
  with assms(1) show ?thesis by (simp add: is_add_def)
next
  case UpdateListeners
  then show ?thesis using assms by (simp add: updateListeners_def for_in_Nil)
next
  case (LookupSuccess k)
  then show ?thesis using assms by simp
next
  case (LookupError k)
  then show ?thesis using assms by simp
next
  case (SocketMessage k d)
  then show ?thesis using assms by simp
qed

lemma idle_run:
  "\<not> list_ex is_add acts \<Longrightarrow> subscribers m = [] \<Longrightarrow> sockets m = [] \<Longrightarrow> lookups m = [] \<Longrightarrow>
     fst (run E acts m) = [] \<and> sockets (snd (run E acts m)) = [] \<and> lookups (snd (run E acts m)) = []"
proof (induction acts arbitrary: m)
  case Nil
  then show ?case by simp
next
  case (Cons a acts)
  then have na: "\<not> is_add a" and nr: "\<not> list_ex is_add acts" by simp_all
  note s = idle_step[OF na Cons.prems(2,3,4), of E]
  from Cons.IH[OF nr, of "snd (snd (step E a m))"] s
  show ?case by (simp only: run_Cons_fst run_Cons_snd) simp
qed

lemma step_ajax_origin:
  assumes "AjaxGet u \<in> set (fst (step E a m))"
  shows "\<exists>t c. a = AddListener t c \<and> \<not> has_property (subscribers m) t"
proof -
  have "is_add a" using assms step_other_no_ajax[of a u E m] by blast
  then obtain t c where a: "a = AddListener t c" by (cases a) (auto simp: is_add_def)
  have "\<not> has_property (subscribers m) t"
  proof
    assume "has_property (subscribers m) t"
    then have "fst (addListener t c m) = []"
      by (simp add: addListener_def split: option.splits)
    with assms a show False by simp
  qed
  with a show ?thesis by blast
qed

lemma outstream_ready_step: "outstream_ready m \<Longrightarrow> outstream_ready (snd (snd (step E a m)))"
proof (cases "is_add a")
  case False
  assume "outstream_ready m"
  then show ?thesis using step_other_state[OF False, of E m] by (simp add: outstream_ready_def)
next
  case True
  assume r: "outstream_ready m"
  from True obtain t c where a: "a = AddListener t c" by (cases a) (auto simp: is_add_def)
  show ?thesis
  proof (cases t m rule: addListener_cases)
    case inherited
    then show ?thesis using r a by (simp add: addListener_inherited)
  next
    case (existing l)
    show ?thesis
    proof (cases "t = outstream_topic")
      case True
      then show ?thesis using a existing
        by (simp add: addListener_existing outstream_ready_def map_of_push_same)
    next
      case False
      then show ?thesis using a existing r
        by (simp add: addListener_existing outstream_ready_def map_of_push_other)
    qed
  next
    case fresh
    then have n: "map_of (subscribers m) t = None" by (simp add: map_of_eq_None_iff)
    show ?thesis using fresh a r n
      by (auto simp: addListener_fresh outstream_ready_def map_add_def split: option.splits)
  qed
qed

lemma handle_output_TypeError:
  "fst (snd (handle_output E t d m)) = Some TypeError \<longleftrightarrow> map_of (subscribers m) t = None"
  using invoke_not_TypeError[of E "Some t" "[d]"]
  by (auto simp: handle_output_def split: option.splits prod.splits) (metis snd_conv)

lemma invoke_all_topic:
  assumes "returns E args cbs" and "list_all callable cbs \<or> tp \<noteq> None"
  shows "invoke_callbacks E tp args cbs =
           (map (report (case tp of None \<Rightarrow> [] | Some g \<Rightarrow> g) args) cbs, None)"
proof (cases tp)
  case None
  with assms show ?thesis by (simp add: invoke_all_callable[where t = "[]"])
next
  case (Some g)
  with assms show ?thesis by (simp add: invoke_all)
qed

lemma invoke_stops_topic:
  assumes "returns E args pre" and "list_all callable pre \<or> tp \<noteq> None" and "throws E f args"
  shows "invoke_callbacks E tp args (pre @ Fn f # post) =
           (map (report (case tp of None \<Rightarrow> [] | Some g \<Rightarrow> g) args) pre @ [Call f args],
            Some (Thrown f))"
  using assms by (simp add: invoke_append invoke_all_topic)

section \<open>The claims\<close>

text \<open>
  C1 (not what the code does). A publisher message reaches \<^verbatim>\<open>handle_message\<close> as \<^verbatim>\<open>e.data\<close>,
  the text of the frame. On that string \<^verbatim>\<open>message[0]\<close> is its first character and the
  assignment of \<^verbatim>\<open>'prob.'+message[0]\<close> is ignored, so the key looked up is one character
  (or \<^verbatim>\<open>'undefined'\<close> for the empty frame) and never begins with \<^verbatim>\<open>prob.\<close>: whatever the
  frame holds, a registry whose only topic is \<^verbatim>\<open>'prob.' + S\<close> sees no call and no log line.
  (An array, were the frame decoded first, is rewritten and routed as the claim says:
  \<open>envelope_routed_by_rewritten_topic\<close>.)
\<close>

theorem text_frame_misses_rewritten_topic:
  "emitted (handle_message E (Str s) (init_model\<lparr>subscribers := [(''prob.'' @ S, cbs)]\<rparr>)) = []"
  using text_frame_key[of s S] by (simp add: handle_message_def emitted_def)

text \<open>
  C2 (not what the code does when a callback throws). In the execution that registers
  \<^verbatim>\<open>f1\<close> and then \<^verbatim>\<open>f2\<close> under the output topic, opens the output socket and delivers a
  line, with \<^verbatim>\<open>f1\<close> throwing: \<^verbatim>\<open>f1\<close> is called, the exception leaves the handler, and
  \<^verbatim>\<open>f2\<close>, registered under the same topic, is not called at all.
\<close>

theorem fan_out_stops_before_later_callback:
  "emitted (step (faulty 1) (SocketMessage 0 (Str ''line''))
      (snd (run (faulty 1) [AddListener ''outstream'' (Fn 1), AddListener ''outstream'' (Fn 2),
                             LookupSuccess 0] init_model))) = [Call 1 [Str ''line'']]
 \<and> raised (step (faulty 1) (SocketMessage 0 (Str ''line''))
      (snd (run (faulty 1) [AddListener ''outstream'' (Fn 1), AddListener ''outstream'' (Fn 2),
                             LookupSuccess 0] init_model))) = Some (Thrown 1)
 \<and> Call 2 [Str ''line''] \<notin> set (emitted (step (faulty 1) (SocketMessage 0 (Str ''line''))
      (snd (run (faulty 1) [AddListener ''outstream'' (Fn 1), AddListener ''outstream'' (Fn 2),
                             LookupSuccess 0] init_model))))"
  by (simp add: addListener_def has_property_def Object_prototype_def init_model_def
      outstream_topic_def open_outstream_socket_def open_publisher_socket_def open_websocket_def
      Let_def handle_output_def faulty_def emitted_def raised_def)

text \<open>
  C2 as amended. As long as no called function throws, callbacks are called in the order
  of their registration, once for each time they were registered. \<^verbatim>\<open>addListener\<close> puts
  the value at the end of the list of its topic and removes nothing (for a topic that is
  not a name of \<^verbatim>\<open>Object.prototype\<close>); each of the three loops, when no function of the
  list throws, emits one effect for each entry, in the order of the list:
  \<^verbatim>\<open>handle_output\<close> for the list of its topic; \<^verbatim>\<open>handle_message\<close> for the list of the key it
  looks up (when every entry is callable or the global \<^verbatim>\<open>topic\<close> exists, see C7);
  \<^verbatim>\<open>updateListeners\<close> for the list of each topic but the output topic, between the effects
  of the topics that \<^verbatim>\<open>for ... in\<close> visits before and after it. Last, end to end: after
  \<open>c1\<close> and then \<open>c2\<close> are registered under \<open>t\<close>, a message for \<open>t\<close> calls the older
  entries, then \<open>c1\<close>, then \<open>c2\<close>.
\<close>

theorem fan_out_in_registration_order:
  "(t \<notin> set Object_prototype \<longrightarrow>
      raised (addListener t c m) = None
    \<and> map_of (subscribers (final (addListener t c m))) t =
        Some ((case map_of (subscribers m) t of None \<Rightarrow> [] | Some l \<Rightarrow> l) @ [c]))
 \<and> (map_of (subscribers m) t = Some cbs \<and> returns E [d] cbs \<longrightarrow>
      emitted (handle_output E t d m) = map (report t [d]) cbs
    \<and> raised (handle_output E t d m) = None)
 \<and> (message \<noteq> Undefined \<and> parse_ok E (rewrite message)
    \<and> map_of (subscribers m) (routing_key message) = Some cbs
    \<and> returns E [rewrite message] cbs
    \<and> (list_all callable cbs \<or> global_topic m \<noteq> None) \<longrightarrow>
      emitted (handle_message E message m) =
        map (report (case global_topic m of None \<Rightarrow> [] | Some g \<Rightarrow> g) [rewrite message]) cbs
    \<and> raised (handle_message E message m) = None)
 \<and> (for_in (subscribers m) = before @ (t, cbs) # after \<and> t \<noteq> outstream_topic
    \<and> all_return E (subscribers m) \<longrightarrow>
      emitted (updateListeners E m) = broadcast before @ map (report t []) cbs @ broadcast after
    \<and> raised (updateListeners E m) = None)
 \<and> (t \<notin> set Object_prototype
    \<and> old = (case map_of (subscribers m) t of None \<Rightarrow> [] | Some l \<Rightarrow> l)
    \<and> returns E [d] (old @ [Fn c1, Fn c2]) \<longrightarrow>
      map_of (subscribers (final (addListener t (Fn c2) (final (addListener t (Fn c1) m))))) t
        = Some (old @ [Fn c1, Fn c2])
    \<and> emitted (handle_output E t d (final (addListener t (Fn c2) (final (addListener t (Fn c1) m)))))
        = map (report t [d]) old @ [Call c1 [d], Call c2 [d]])"
proof (intro conjI impI)
  assume "t \<notin> set Object_prototype"
  from addListener_appends[OF this, of c m]
  show "raised (addListener t c m) = None"
    and "map_of (subscribers (final (addListener t c m))) t =
        Some ((case map_of (subscribers m) t of None \<Rightarrow> [] | Some l \<Rightarrow> l) @ [c])"
    by (simp_all add: raised_def final_def)
next
  assume a: "map_of (subscribers m) t = Some cbs \<and> returns E [d] cbs"
  then have "handle_output E t d m = (map (report t [d]) cbs, None, m)"
    by (intro handle_output_all) auto
  then show "emitted (handle_output E t d m) = map (report t [d]) cbs"
    and "raised (handle_output E t d m) = None"
    by (simp_all add: emitted_def raised_def)
next
  assume a: "message \<noteq> Undefined \<and> parse_ok E (rewrite message)
    \<and> map_of (subscribers m) (routing_key message) = Some cbs
    \<and> returns E [rewrite message] cbs
    \<and> (list_all callable cbs \<or> global_topic m \<noteq> None)"
  then have "invoke_callbacks E (global_topic m) [rewrite message] cbs =
      (map (report (case global_topic m of None \<Rightarrow> [] | Some g \<Rightarrow> g) [rewrite message]) cbs, None)"
    by (intro invoke_all_topic) auto
  then show "emitted (handle_message E message m) =
        map (report (case global_topic m of None \<Rightarrow> [] | Some g \<Rightarrow> g) [rewrite message]) cbs"
    and "raised (handle_message E message m) = None"
    using a by (simp_all add: handle_message_def emitted_def raised_def)
next
  assume a: "for_in (subscribers m) = before @ (t, cbs) # after \<and> t \<noteq> outstream_topic
    \<and> all_return E (subscribers m)"
  have "all_return E (for_in (subscribers m))"
    using a all_return_for_in[of E "subscribers m"] by blast
  from update_topics_all[OF this, of m]
  show "emitted (updateListeners E m) = broadcast before @ map (report t []) cbs @ broadcast after"
    and "raised (updateListeners E m) = None"
    using a by (simp_all add: updateListeners_def emitted_def raised_def broadcast_append broadcast_Cons)
next
  let ?m1 = "final (addListener t (Fn c1) m)"
  let ?m2 = "final (addListener t (Fn c2) ?m1)"
  assume a: "t \<notin> set Object_prototype
    \<and> old = (case map_of (subscribers m) t of None \<Rightarrow> [] | Some l \<Rightarrow> l)
    \<and> returns E [d] (old @ [Fn c1, Fn c2])"
  have 1: "map_of (subscribers ?m1) t = Some (old @ [Fn c1])"
    using a addListener_appends[of t "Fn c1" m] by (simp add: final_def)
  show 2: "map_of (subscribers ?m2) t = Some (old @ [Fn c1, Fn c2])"
    using a addListener_appends[of t "Fn c2" ?m1] 1 by (simp add: final_def)
  from a have "returns E [d] (old @ [Fn c1, Fn c2])" by blast
  from handle_output_all[OF 2 this]
  show "emitted (handle_output E t d ?m2) = map (report t [d]) old @ [Call c1 [d], Call c2 [d]]"
    by (simp add: emitted_def)
qed

theorem fan_out_in_registration_order_witness:
  "''outstream'' \<notin> set Object_prototype
 \<and> map_of (subscribers (final (addListener ''outstream'' (Fn 3)
       (init_model\<lparr>subscribers := [(''outstream'', [Fn 1, Fn 2, Fn 1])]\<rparr>)))) ''outstream''
     = Some [Fn 1, Fn 2, Fn 1, Fn 3]
 \<and> returns quiet [Str ''x''] [Fn 1, Fn 2, Fn 1]
 \<and> emitted (handle_output quiet ''outstream'' (Str ''x'')
       (init_model\<lparr>subscribers := [(''outstream'', [Fn 1, Fn 2, Fn 1])]\<rparr>))
     = [Call 1 [Str ''x''], Call 2 [Str ''x''], Call 1 [Str ''x'']]
 \<and> emitted (handle_output quiet ''outstream'' (Str ''x'')
       (final (addListener ''outstream'' (Fn 5) (final (addListener ''outstream'' (Fn 4)
          (init_model\<lparr>subscribers := [(''outstream'', [Fn 1, Fn 2, Fn 1])]\<rparr>))))))
     = [Call 1 [Str ''x''], Call 2 [Str ''x''], Call 1 [Str ''x''], Call 4 [Str ''x''], Call 5 [Str ''x'']]
 \<and> routing_key (Str ''[\"status\", 42]'') = ''[''
 \<and> emitted (handle_message quiet (Str ''[\"status\", 42]'')
       (init_model\<lparr>subscribers := [(''['', [Fn 1, Fn 2, Fn 1])]\<rparr>))
     = [Call 1 [Str ''[\"status\", 42]''], Call 2 [Str ''[\"status\", 42]''],
        Call 1 [Str ''[\"status\", 42]'']]
 \<and> for_in [(''b'', [Fn 3]), (''5'', [Fn 1, Fn 2, Fn 1]), (''1'', [Fn 4])]
     = [(''1'', [Fn 4]), (''5'', [Fn 1, Fn 2, Fn 1]), (''b'', [Fn 3])]
 \<and> emitted (updateListeners quiet
       (init_model\<lparr>subscribers := [(''b'', [Fn 3]), (''5'', [Fn 1, Fn 2, Fn 1]), (''1'', [Fn 4])]\<rparr>))
     = [Call 4 [], Call 1 [], Call 2 [], Call 1 [], Call 3 []]"
  using fan_out_in_registration_order
    [of "''outstream''" "Fn 3" "init_model\<lparr>subscribers := [(''outstream'', [Fn 1, Fn 2, Fn 1])]\<rparr>"
        "[Fn 1, Fn 2, Fn 1]" quiet "Str ''x''" Undefined "[]" "[]"
        "[Fn 1, Fn 2, Fn 1]" 4 5]
    fan_out_in_registration_order
    [of "''[''" "Fn 3" "init_model\<lparr>subscribers := [(''['', [Fn 1, Fn 2, Fn 1])]\<rparr>"
        "[Fn 1, Fn 2, Fn 1]" quiet "Str ''x''" "Str ''[\"status\", 42]''" "[]" "[]"
        "[Fn 1, Fn 2, Fn 1]" 4 5]
    fan_out_in_registration_order
    [of "''5''" "Fn 3"
        "init_model\<lparr>subscribers := [(''b'', [Fn 3]), (''5'', [Fn 1, Fn 2, Fn 1]), (''1'', [Fn 4])]\<rparr>"
        "[Fn 1, Fn 2, Fn 1]" quiet "Str ''x''" Undefined "[(''1'', [Fn 4])]" "[(''b'', [Fn 3])]"
        "[Fn 1, Fn 2, Fn 1]" 4 5]
  by (simp add: Object_prototype_def returns_def quiet_def callable_def all_return_def
      subscribed_def broadcast_def outstream_topic_def routing_key_def rewrite_def
      for_in_def is_array_index_def is_digit_def decimal_def digit_value_def)

text \<open>
  C3 (not what the code does). No loop isolates a call: with the subscriber list
  \<^verbatim>\<open>[f1, f2]\<close> of the output topic and \<^verbatim>\<open>f1\<close> throwing, \<^verbatim>\<open>handle_output\<close> calls \<^verbatim>\<open>f1\<close>, the
  exception leaves the handler, and \<^verbatim>\<open>f2\<close> is not called.
\<close>

theorem callback_exception_stops_fan_out:
  "emitted (handle_output (faulty 1) outstream_topic (Str ''line'')
       (init_model\<lparr>subscribers := [(outstream_topic, [Fn 1, Fn 2])]\<rparr>)) = [Call 1 [Str ''line'']]
   \<and> raised (handle_output (faulty 1) outstream_topic (Str ''line'')
       (init_model\<lparr>subscribers := [(outstream_topic, [Fn 1, Fn 2])]\<rparr>)) = Some (Thrown 1)
   \<and> Call 2 [Str ''line''] \<notin> set (emitted (handle_output (faulty 1) outstream_topic (Str ''line'')
       (init_model\<lparr>subscribers := [(outstream_topic, [Fn 1, Fn 2])]\<rparr>)))"
  by (simp add: handle_output_def faulty_def emitted_def raised_def)

text \<open>
  C3 as amended. In each of the three loops an exception of a called function is not
  caught: the entries before it are handled, the function is called, its exception leaves
  the handler (or \<^verbatim>\<open>updateListeners\<close>), and nothing after it in the list, nor any topic
  that \<^verbatim>\<open>for ... in\<close> would visit later in \<^verbatim>\<open>updateListeners\<close>, is reached.
\<close>

theorem callback_exception_propagates:
  assumes "throws E f args"
  shows "(map_of (subscribers m) t = Some (pre @ Fn f # post) \<and> returns E args pre \<and> args = [d] \<longrightarrow>
            emitted (handle_output E t d m) = map (report t args) pre @ [Call f args]
          \<and> raised (handle_output E t d m) = Some (Thrown f))
       \<and> (message \<noteq> Undefined \<and> parse_ok E (rewrite message)
          \<and> map_of (subscribers m) (routing_key message) = Some (pre @ Fn f # post)
          \<and> returns E args pre \<and> (list_all callable pre \<or> global_topic m \<noteq> None)
          \<and> args = [rewrite message] \<longrightarrow>
            emitted (handle_message E message m) =
              map (report (case global_topic m of None \<Rightarrow> [] | Some g \<Rightarrow> g) args) pre @ [Call f args]
          \<and> raised (handle_message E message m) = Some (Thrown f))
       \<and> (for_in (subscribers m) = before @ (t, pre @ Fn f # post) # after \<and> t \<noteq> outstream_topic
          \<and> all_return E before \<and> returns E args pre \<and> args = [] \<longrightarrow>
            emitted (updateListeners E m) = broadcast before @ map (report t args) pre @ [Call f args]
          \<and> raised (updateListeners E m) = Some (Thrown f))"
proof (intro conjI impI)
  assume a: "map_of (subscribers m) t = Some (pre @ Fn f # post) \<and> returns E args pre \<and> args = [d]"
  then have "invoke_callbacks E (Some t) [d] (pre @ Fn f # post) = (map (report t [d]) pre @ [Call f [d]], Some (Thrown f))"
    using assms by (intro invoke_stops) auto
  then show "emitted (handle_output E t d m) = map (report t args) pre @ [Call f args]"
    and "raised (handle_output E t d m) = Some (Thrown f)"
    using a by (simp_all add: handle_output_def emitted_def raised_def)
next
  assume a: "message \<noteq> Undefined \<and> parse_ok E (rewrite message)
          \<and> map_of (subscribers m) (routing_key message) = Some (pre @ Fn f # post)
          \<and> returns E args pre \<and> (list_all callable pre \<or> global_topic m \<noteq> None)
          \<and> args = [rewrite message]"
  then have "invoke_callbacks E (global_topic m) [rewrite message] (pre @ Fn f # post) =
      (map (report (case global_topic m of None \<Rightarrow> [] | Some g \<Rightarrow> g) [rewrite message]) pre
         @ [Call f [rewrite message]], Some (Thrown f))"
    using assms by (intro invoke_stops_topic) auto
  then show "emitted (handle_message E message m) =
              map (report (case global_topic m of None \<Rightarrow> [] | Some g \<Rightarrow> g) args) pre @ [Call f args]"
    and "raised (handle_message E message m) = Some (Thrown f)"
    using a by (simp_all add: handle_message_def emitted_def raised_def)
next
  assume a: "for_in (subscribers m) = before @ (t, pre @ Fn f # post) # after \<and> t \<noteq> outstream_topic
          \<and> all_return E before \<and> returns E args pre \<and> args = []"
  then have "fst (update_topics E (before @ (t, pre @ Fn f # post) # after) m) =
           broadcast before @ map (report t []) pre @ [Call f []]
       \<and> fst (snd (update_topics E (before @ (t, pre @ Fn f # post) # after) m)) = Some (Thrown f)"
    using assms by (intro update_topics_stops) auto
  then show "emitted (updateListeners E m) = broadcast before @ map (report t args) pre @ [Call f args]"
    and "raised (updateListeners E m) = Some (Thrown f)"
    using a by (simp_all add: updateListeners_def emitted_def raised_def)
qed

theorem callback_exception_propagates_witness:
  "throws (faulty 1) 1 [Str ''x'']
 \<and> returns (faulty 1) [Str ''x''] [Fn 0]
 \<and> emitted (handle_output (faulty 1) ''outstream'' (Str ''x'')
       (init_model\<lparr>subscribers := [(''outstream'', [Fn 0, Fn 1, Fn 2])]\<rparr>))
     = [Call 0 [Str ''x''], Call 1 [Str ''x'']]
 \<and> raised (handle_output (faulty 1) ''outstream'' (Str ''x'')
       (init_model\<lparr>subscribers := [(''outstream'', [Fn 0, Fn 1, Fn 2])]\<rparr>))
     = Some (Thrown 1)
 \<and> routing_key (Str ''[\"status\", 42]'') = ''[''
 \<and> emitted (handle_message (faulty 1) (Str ''[\"status\", 42]'')
       (init_model\<lparr>subscribers := [(''['', [Fn 0, Fn 1, Fn 2])]\<rparr>))
     = [Call 0 [Str ''[\"status\", 42]''], Call 1 [Str ''[\"status\", 42]'']]
 \<and> raised (handle_message (faulty 1) (Str ''[\"status\", 42]'')
       (init_model\<lparr>subscribers := [(''['', [Fn 0, Fn 1, Fn 2])]\<rparr>))
     = Some (Thrown 1)
 \<and> for_in [(''b'', [Fn 0, Fn 1, Fn 3]), (''5'', [Fn 2]), (''c'', [Fn 4])]
     = [(''5'', [Fn 2]), (''b'', [Fn 0, Fn 1, Fn 3]), (''c'', [Fn 4])]
 \<and> emitted (updateListeners (faulty 1)
       (init_model\<lparr>subscribers := [(''b'', [Fn 0, Fn 1, Fn 3]), (''5'', [Fn 2]), (''c'', [Fn 4])]\<rparr>))
     = [Call 2 [], Call 0 [], Call 1 []]
 \<and> raised (updateListeners (faulty 1)
       (init_model\<lparr>subscribers := [(''b'', [Fn 0, Fn 1, Fn 3]), (''5'', [Fn 2]), (''c'', [Fn 4])]\<rparr>))
     = Some (Thrown 1)"
  using callback_exception_propagates
    [of "faulty 1" 1 "[Str ''x'']"
        "init_model\<lparr>subscribers := [(''outstream'', [Fn 0, Fn 1, Fn 2])]\<rparr>"
        "''outstream''" "[Fn 0]" "[Fn 2]" "Str ''x''" Undefined "[]" "[]"]
    callback_exception_propagates
    [of "faulty 1" 1 "[Str ''[\"status\", 42]'']"
        "init_model\<lparr>subscribers := [(''['', [Fn 0, Fn 1, Fn 2])]\<rparr>"
        "''[''" "[Fn 0]" "[Fn 2]" "Str ''x''" "Str ''[\"status\", 42]''" "[]" "[]"]
    callback_exception_propagates
    [of "faulty 1" 1 "[]"
        "init_model\<lparr>subscribers := [(''b'', [Fn 0, Fn 1, Fn 3]), (''5'', [Fn 2]), (''c'', [Fn 4])]\<rparr>"
        "''b''" "[Fn 0]" "[Fn 3]" "Str ''x''" Undefined "[(''5'', [Fn 2])]" "[(''c'', [Fn 4])]"]
  by (simp add: faulty_def returns_def callable_def all_return_def subscribed_def broadcast_def
      outstream_topic_def routing_key_def rewrite_def
      for_in_def is_array_index_def is_digit_def decimal_def digit_value_def)

text \<open>
  C4. In every execution from a fresh model the lookup for the output channel
  (\<^verbatim>\<open>open_websocket('outstream', ...)\<close>) is issued once when some call of \<^verbatim>\<open>addListener\<close> names
  the output topic, and never otherwise. It is issued by the first such call: nothing
  before that call issues it, that call issues it once, and nothing after it does,
  whatever is registered, delivered or updated.
\<close>

theorem outstream_channel_opened_once:
  "count_list (fst (run E acts init_model)) (AjaxGet ''outstream'') =
     (if list_ex outstream_registration acts then 1 else 0)
 \<and> (\<not> list_ex outstream_registration pre \<and> outstream_registration a \<longrightarrow>
      AjaxGet ''outstream'' \<notin> set (fst (run E pre init_model))
    \<and> count_list (emitted (step E a (snd (run E pre init_model)))) (AjaxGet ''outstream'') = 1
    \<and> AjaxGet ''outstream'' \<notin> set (fst (run E post (final (step E a (snd (run E pre init_model)))))))"
proof -
  have t: "outstream_topic \<notin> topics init_model" by (simp add: topics_def init_model_def)
  show ?thesis
    using run_outstream_count[OF consistent_init, of E acts] t
      consistent_outstream_first[OF consistent_init t, of pre a E post]
    by (simp add: emitted_def final_def)
qed

theorem outstream_channel_opened_once_witness:
  "\<not> list_ex outstream_registration [AddListener ''a'' (Fn 3), UpdateListeners]
 \<and> outstream_registration (AddListener ''outstream'' (Fn 1))
 \<and> count_list (fst (run quiet [AddListener ''a'' (Fn 3), UpdateListeners,
        AddListener ''outstream'' (Fn 1), AddListener ''outstream'' (Fn 2), AddListener ''b'' (Fn 4)]
        init_model)) (AjaxGet ''outstream'') = 1
 \<and> AjaxGet ''outstream'' \<notin> set (fst (run quiet [AddListener ''a'' (Fn 3), UpdateListeners] init_model))
 \<and> count_list (emitted (step quiet (AddListener ''outstream'' (Fn 1))
        (snd (run quiet [AddListener ''a'' (Fn 3), UpdateListeners] init_model)))) (AjaxGet ''outstream'') = 1
 \<and> AjaxGet ''outstream'' \<notin> set (fst (run quiet [AddListener ''outstream'' (Fn 2), AddListener ''b'' (Fn 4)]
        (final (step quiet (AddListener ''outstream'' (Fn 1))
          (snd (run quiet [AddListener ''a'' (Fn 3), UpdateListeners] init_model))))))"
  using outstream_channel_opened_once
    [of quiet "[AddListener ''a'' (Fn 3), UpdateListeners,
        AddListener ''outstream'' (Fn 1), AddListener ''outstream'' (Fn 2), AddListener ''b'' (Fn 4)]"
        "[AddListener ''a'' (Fn 3), UpdateListeners]" "AddListener ''outstream'' (Fn 1)"
        "[AddListener ''outstream'' (Fn 2), AddListener ''b'' (Fn 4)]"]
  by (simp add: outstream_registration_def outstream_topic_def)

text \<open>
  C5. In every execution from a fresh model the lookup for the publisher channel
  (\<^verbatim>\<open>open_websocket('pubstream', ...)\<close>) is issued once when some call of \<^verbatim>\<open>addListener\<close>
  registers, and never otherwise. It is issued by the first call that registers, whatever
  its topic: nothing before that call issues it, that call issues it once, and nothing
  after it does, in particular not the first registration of another topic. (A call whose
  topic is a name of \<^verbatim>\<open>Object.prototype\<close> throws and registers nothing, see C10.)
\<close>

theorem publisher_channel_opened_once:
  "count_list (fst (run E acts init_model)) (AjaxGet ''pubstream'') =
     (if list_ex registration acts then 1 else 0)
 \<and> (\<not> list_ex registration pre \<and> registration a \<longrightarrow>
      AjaxGet ''pubstream'' \<notin> set (fst (run E pre init_model))
    \<and> count_list (emitted (step E a (snd (run E pre init_model)))) (AjaxGet ''pubstream'') = 1
    \<and> AjaxGet ''pubstream'' \<notin> set (fst (run E post (final (step E a (snd (run E pre init_model)))))))"
proof -
  have t: "subscribers init_model = []" by (simp add: init_model_def)
  show ?thesis
    using run_publisher_count[OF consistent_init, of E acts] t
      consistent_publisher_first[OF consistent_init t, of pre a E post]
    by (simp add: emitted_def final_def)
qed

theorem publisher_channel_opened_once_witness:
  "\<not> list_ex registration [UpdateListeners, AddListener ''toString'' (Fn 1)]
 \<and> registration (AddListener ''a'' (Fn 2))
 \<and> count_list (fst (run quiet [UpdateListeners, AddListener ''toString'' (Fn 1),
        AddListener ''a'' (Fn 2), AddListener ''b'' (Fn 3), AddListener ''outstream'' (Fn 4)]
        init_model)) (AjaxGet ''pubstream'') = 1
 \<and> AjaxGet ''pubstream'' \<notin> set (fst (run quiet [UpdateListeners, AddListener ''toString'' (Fn 1)] init_model))
 \<and> count_list (emitted (step quiet (AddListener ''a'' (Fn 2))
        (snd (run quiet [UpdateListeners, AddListener ''toString'' (Fn 1)] init_model)))) (AjaxGet ''pubstream'') = 1
 \<and> AjaxGet ''pubstream'' \<notin> set (fst (run quiet [AddListener ''b'' (Fn 3), AddListener ''outstream'' (Fn 4)]
        (final (step quiet (AddListener ''a'' (Fn 2))
          (snd (run quiet [UpdateListeners, AddListener ''toString'' (Fn 1)] init_model))))))"
  using publisher_channel_opened_once
    [of quiet "[UpdateListeners, AddListener ''toString'' (Fn 1),
        AddListener ''a'' (Fn 2), AddListener ''b'' (Fn 3), AddListener ''outstream'' (Fn 4)]"
        "[UpdateListeners, AddListener ''toString'' (Fn 1)]" "AddListener ''a'' (Fn 2)"
        "[AddListener ''b'' (Fn 3), AddListener ''outstream'' (Fn 4)]"]
  by (simp add: registration_def Object_prototype_def)

text \<open>
  C6 (not what the code does when a callback throws). After \<^verbatim>\<open>f1\<close> is registered under
  \<^verbatim>\<open>'a'\<close> and \<^verbatim>\<open>f2\<close> under \<^verbatim>\<open>'b'\<close>, with \<^verbatim>\<open>f1\<close> throwing, \<^verbatim>\<open>updateListeners\<close> calls
  \<^verbatim>\<open>f1\<close>, the exception leaves it, and the topic \<^verbatim>\<open>'b'\<close>, which is in the registry and is
  not the output topic, is not fanned out.
\<close>

theorem updateListeners_stops_before_later_topic:
  "emitted (step (faulty 1) UpdateListeners
      (snd (run (faulty 1) [AddListener ''a'' (Fn 1), AddListener ''b'' (Fn 2)] init_model)))
     = [Call 1 []]
 \<and> raised (step (faulty 1) UpdateListeners
      (snd (run (faulty 1) [AddListener ''a'' (Fn 1), AddListener ''b'' (Fn 2)] init_model)))
     = Some (Thrown 1)
 \<and> Call 2 [] \<notin> set (emitted (step (faulty 1) UpdateListeners
      (snd (run (faulty 1) [AddListener ''a'' (Fn 1), AddListener ''b'' (Fn 2)] init_model))))"
  by (simp add: addListener_def has_property_def Object_prototype_def init_model_def
      outstream_topic_def open_publisher_socket_def open_websocket_def Let_def
      updateListeners_def faulty_def emitted_def raised_def
      for_in_def is_array_index_def is_digit_def decimal_def digit_value_def)

text \<open>
  C6 as amended. \<^verbatim>\<open>updateListeners\<close> leaves the output topic out: what it emits is what it
  emits on the registry without the output topic; every call it makes has no argument and
  is the call of a function registered under another topic than the output topic; and
  when no function registered under such a topic throws on a call without arguments, it
  goes through every topic of the registry but the output topic, in the order of
  \<^verbatim>\<open>for ... in\<close> (array indices first, in ascending order, then the other names in the
  order of their creation), and through every entry of each.
\<close>

theorem updateListeners_skips_output_topic:
  "emitted (updateListeners E m) =
     emitted (updateListeners E (m\<lparr>subscribers := subscribed (subscribers m)\<rparr>))
 \<and> (Call f args \<in> set (emitted (updateListeners E m)) \<longrightarrow>
      args = [] \<and> (\<exists>t cbs. (t, cbs) \<in> set (subscribers m) \<and> t \<noteq> outstream_topic \<and> Fn f \<in> set cbs))
 \<and> (all_return E (subscribers m) \<longrightarrow>
      emitted (updateListeners E m) = broadcast (for_in (subscribers m))
    \<and> raised (updateListeners E m) = None)"
proof (intro conjI impI)
  have "subscribed (for_in (subscribed (subscribers m))) = subscribed (for_in (subscribers m))"
    by (simp only: subscribed_for_in subscribed_idem)
  then show "emitted (updateListeners E m) =
     emitted (updateListeners E (m\<lparr>subscribers := subscribed (subscribers m)\<rparr>))"
    using update_topics_emitted_indep[of E "for_in (subscribers m)" m m]
      update_topics_emitted_indep[of E "for_in (subscribed (subscribers m))"
        "m\<lparr>subscribers := subscribed (subscribers m)\<rparr>" m]
    by (simp add: updateListeners_def emitted_def)
next
  assume "Call f args \<in> set (emitted (updateListeners E m))"
  then have c: "Call f args \<in> set (fst (update_topics E (for_in (subscribers m)) m))"
    by (simp add: updateListeners_def emitted_def)
  from update_topics_calls[OF c] show "args = []"
    and "\<exists>t cbs. (t, cbs) \<in> set (subscribers m) \<and> t \<noteq> outstream_topic \<and> Fn f \<in> set cbs"
    by (auto simp: set_for_in)
next
  assume "all_return E (subscribers m)"
  then have "all_return E (for_in (subscribers m))" by (simp only: all_return_for_in)
  from update_topics_all[OF this, of m]
  show "emitted (updateListeners E m) = broadcast (for_in (subscribers m))"
    and "raised (updateListeners E m) = None"
    by (simp_all add: updateListeners_def emitted_def raised_def)
qed

theorem updateListeners_skips_output_topic_witness:
  "all_return quiet [(''outstream'', [Fn 1]), (''b'', [Fn 3, Fn 2]), (''7'', [Fn 2, Data Undefined])]
 \<and> for_in [(''outstream'', [Fn 1]), (''b'', [Fn 3, Fn 2]), (''7'', [Fn 2, Data Undefined])]
     = [(''7'', [Fn 2, Data Undefined]), (''outstream'', [Fn 1]), (''b'', [Fn 3, Fn 2])]
 \<and> emitted (updateListeners quiet (init_model\<lparr>subscribers :=
        [(''outstream'', [Fn 1]), (''b'', [Fn 3, Fn 2]), (''7'', [Fn 2, Data Undefined])]\<rparr>))
     = [Call 2 [], DebugError ''7'' (Data Undefined), Call 3 [], Call 2 []]
 \<and> raised (updateListeners quiet (init_model\<lparr>subscribers :=
        [(''outstream'', [Fn 1]), (''b'', [Fn 3, Fn 2]), (''7'', [Fn 2, Data Undefined])]\<rparr>)) = None
 \<and> Call 1 [] \<notin> set (emitted (updateListeners quiet (init_model\<lparr>subscribers :=
        [(''outstream'', [Fn 1]), (''b'', [Fn 3, Fn 2]), (''7'', [Fn 2, Data Undefined])]\<rparr>)))"
  using updateListeners_skips_output_topic
    [of quiet "init_model\<lparr>subscribers :=
        [(''outstream'', [Fn 1]), (''b'', [Fn 3, Fn 2]), (''7'', [Fn 2, Data Undefined])]\<rparr>" 1 "[]"]
  by (simp add: all_return_def returns_def quiet_def subscribed_def broadcast_def outstream_topic_def
      updateListeners_def emitted_def raised_def Let_def
      for_in_def is_array_index_def is_digit_def decimal_def digit_value_def)

text \<open>
  C7 (not what the code does, in \<^verbatim>\<open>handle_message\<close>). The \<^verbatim>\<open>debug.error\<close> line of
  \<^verbatim>\<open>handle_message\<close> names \<^verbatim>\<open>topic\<close>, which is not defined there. On a fresh page, with a
  string and then a function registered under \<^verbatim>\<open>'['\<close> and the publisher socket open, the
  frame \<^verbatim>\<open>["foo", 42]\<close> is routed to that list; the entry that is not a function makes the
  handler throw a ReferenceError, nothing is logged and the function after it is not
  called. (\<^verbatim>\<open>handle_output\<close> and \<^verbatim>\<open>updateListeners\<close> do skip such an entry:
  \<open>invalid_entry_skipped\<close>.)
\<close>

theorem publisher_invalid_entry_throws:
  "emitted (step quiet (SocketMessage 0 (Str ''[\"foo\", 42]''))
      (snd (run quiet [AddListener ''['' (Data (Str ''oops'')), AddListener ''['' (Fn 1),
                        LookupSuccess 0] init_model))) = []
   \<and> raised (step quiet (SocketMessage 0 (Str ''[\"foo\", 42]''))
      (snd (run quiet [AddListener ''['' (Data (Str ''oops'')), AddListener ''['' (Fn 1),
                        LookupSuccess 0] init_model))) = Some ReferenceError"
  by (simp add: addListener_def has_property_def Object_prototype_def init_model_def
      outstream_topic_def open_publisher_socket_def open_websocket_def Let_def
      handle_message_def quiet_def rewrite_def routing_key_def emitted_def raised_def)

text \<open>
  C8. An execution from a fresh model in which \<^verbatim>\<open>addListener\<close> is never called has no
  effect at all: no lookup is issued, none is in flight, no socket exists. And in any
  state, a step that issues a lookup is a call of \<^verbatim>\<open>addListener\<close> with a topic for which
  \<^verbatim>\<open>topic in subscribers\<close> is false.
\<close>

theorem no_listener_no_lookup:
  "(\<not> list_ex is_add acts \<longrightarrow>
      fst (run E acts init_model) = []
    \<and> lookups (snd (run E acts init_model)) = []
    \<and> sockets (snd (run E acts init_model)) = [])
 \<and> (AjaxGet u \<in> set (emitted (step E a m)) \<longrightarrow>
      (\<exists>t c. a = AddListener t c \<and> \<not> has_property (subscribers m) t))"
proof (intro conjI impI)
  assume n: "\<not> list_ex is_add acts"
  have "subscribers init_model = []" "sockets init_model = []" "lookups init_model = []"
    by (simp_all add: init_model_def)
  from idle_run[OF n this, of E]
  show "fst (run E acts init_model) = []" and "lookups (snd (run E acts init_model)) = []"
    and "sockets (snd (run E acts init_model)) = []" by simp_all
next
  assume "AjaxGet u \<in> set (emitted (step E a m))"
  then show "\<exists>t c. a = AddListener t c \<and> \<not> has_property (subscribers m) t"
    by (intro step_ajax_origin[of u E]) (simp add: emitted_def)
qed

theorem no_listener_no_lookup_witness:
  "\<not> list_ex is_add [UpdateListeners, SocketMessage 0 (Str ''x''), LookupSuccess 0, LookupError 1]
 \<and> fst (run quiet [UpdateListeners, SocketMessage 0 (Str ''x''), LookupSuccess 0, LookupError 1]
        init_model) = []
 \<and> lookups (snd (run quiet [UpdateListeners, SocketMessage 0 (Str ''x''), LookupSuccess 0,
        LookupError 1] init_model)) = []
 \<and> AjaxGet ''pubstream'' \<in> set (emitted (step quiet (AddListener ''a'' (Fn 1)) init_model))
 \<and> \<not> has_property (subscribers init_model) ''a''"
  using no_listener_no_lookup
    [of "[UpdateListeners, SocketMessage 0 (Str ''x''), LookupSuccess 0, LookupError 1]" quiet
        "''pubstream''" "AddListener ''a'' (Fn 1)" init_model]
  by (simp add: is_add_def addListener_def has_property_def Object_prototype_def init_model_def
      outstream_topic_def open_publisher_socket_def open_websocket_def emitted_def)

text \<open>
  C9. The output flag is set only when the registry holds a list for the output topic:
  this holds in a fresh model and every step keeps it, from any state. In every execution
  from a fresh model, a socket whose handler is \<^verbatim>\<open>handle_output\<close> has the output topic, the
  flag is set and the list exists, so a message on that socket does not throw the
  TypeError of \<^verbatim>\<open>callbacks.length\<close> on a missing list.
\<close>

theorem outstream_entry_before_flag:
  "outstream_ready init_model
 \<and> (outstream_ready m \<longrightarrow> outstream_ready (final (step E a m)))
 \<and> (k < length (sockets (snd (run E acts init_model)))
    \<and> sockets (snd (run E acts init_model)) ! k = Handle_output t \<longrightarrow>
      t = outstream_topic
    \<and> outstream_socket (snd (run E acts init_model))
    \<and> map_of (subscribers (snd (run E acts init_model))) outstream_topic \<noteq> None
    \<and> raised (step E (SocketMessage k d) (snd (run E acts init_model))) \<noteq> Some TypeError)"
proof (intro conjI impI)
  show "outstream_ready init_model" by (simp add: outstream_ready_def init_model_def)
next
  assume "outstream_ready m"
  then show "outstream_ready (final (step E a m))"
    using outstream_ready_step[of m E a] by (simp add: final_def)
next
  let ?m = "snd (run E acts init_model)"
  assume a: "k < length (sockets ?m) \<and> sockets ?m ! k = Handle_output t"
  have c: "consistent ?m" using consistent_init by (rule consistent_run)
  have "Handle_output t \<in> set (sockets ?m)" using a by (metis nth_mem)
  with c have h: "t = outstream_topic \<and> outstream_socket ?m"
    by (auto simp: consistent_def list_all_iff)
  then show "t = outstream_topic" and "outstream_socket ?m" by simp_all
  from c h have "outstream_topic \<in> fst ` set (subscribers ?m)"
    by (simp add: consistent_def topics_def)
  then show n: "map_of (subscribers ?m) outstream_topic \<noteq> None"
    by (simp add: map_of_eq_None_iff)
  show "raised (step E (SocketMessage k d) ?m) \<noteq> Some TypeError"
    using a h n by (simp add: raised_def handle_output_TypeError)
qed

theorem outstream_entry_before_flag_witness:
  "outstream_ready init_model
 \<and> outstream_ready (final (step quiet (AddListener ''outstream'' (Fn 1)) init_model))
 \<and> sockets (snd (run quiet [AddListener ''outstream'' (Fn 1), LookupSuccess 0] init_model))
     = [Handle_output ''outstream'']
 \<and> raised (step quiet (SocketMessage 0 (Str ''x''))
        (snd (run quiet [AddListener ''outstream'' (Fn 1), LookupSuccess 0] init_model)))
     \<noteq> Some TypeError"
  using outstream_entry_before_flag
    [of init_model quiet "AddListener ''outstream'' (Fn 1)" 0
        "[AddListener ''outstream'' (Fn 1), LookupSuccess 0]" "''outstream''" "Str ''x''"]
  by (simp add: addListener_def has_property_def Object_prototype_def init_model_def
      outstream_topic_def open_outstream_socket_def open_publisher_socket_def open_websocket_def
      Let_def final_def outstream_ready_def)

text \<open>
  C10 (not what the code does, for some topics). \<^verbatim>\<open>'toString' in subscribers\<close> is true of
  the empty registry, so \<^verbatim>\<open>addListener('toString', f)\<close> takes the branch of an existing
  topic, where \<^verbatim>\<open>subscribers['toString']\<close> is the inherited function, which has no
  \<^verbatim>\<open>push\<close>: the call throws a TypeError and stores nothing. (For every other topic the
  value is stored unchecked and the call returns: \<open>addListener_stores_unchecked\<close>.)
\<close>

theorem addListener_inherited_topic_throws:
  "addListener ''toString'' (Fn 1) init_model = ([], Some TypeError, init_model)"
  by (simp add: addListener_inherited Object_prototype_def init_model_def)

section \<open>Further properties\<close>

text \<open>
  An envelope that is already decoded, an array whose first element is the string \<open>S\<close>:
  the assignment stores \<^verbatim>\<open>'prob.' + S\<close> in it, the list registered under \<^verbatim>\<open>'prob.' + S\<close> is
  called with the rewritten envelope, in order, and a list registered under \<open>S\<close> itself is
  not called.
\<close>

theorem envelope_routed_by_rewritten_topic:
  assumes "parse_ok E (Arr (Str (''prob.'' @ S) # payload))"
    and "returns E [Arr (Str (''prob.'' @ S) # payload)] cbs" and "list_all callable cbs"
  shows "rewrite (Arr (Str S # payload)) = Arr (Str (''prob.'' @ S) # payload)
       \<and> emitted (handle_message E (Arr (Str S # payload))
            (m\<lparr>subscribers := [(''prob.'' @ S, cbs)]\<rparr>))
          = map (report (''prob.'' @ S) [Arr (Str (''prob.'' @ S) # payload)]) cbs
       \<and> raised (handle_message E (Arr (Str S # payload))
            (m\<lparr>subscribers := [(''prob.'' @ S, cbs)]\<rparr>)) = None
       \<and> emitted (handle_message E (Arr (Str S # payload)) (m\<lparr>subscribers := [(S, cbs)]\<rparr>)) = []"
proof -
  have r: "rewrite (Arr (Str S # payload)) = Arr (Str (''prob.'' @ S) # payload)"
    by (simp add: rewrite_def)
  have k: "routing_key (Arr (Str S # payload)) = ''prob.'' @ S"
    by (simp add: routing_key_def rewrite_def)
  have "handle_message E (Arr (Str S # payload)) (m\<lparr>subscribers := [(''prob.'' @ S, cbs)]\<rparr>)
      = (map (report (''prob.'' @ S) [rewrite (Arr (Str S # payload))]) cbs, None,
         m\<lparr>subscribers := [(''prob.'' @ S, cbs)]\<rparr>)"
    using assms by (intro handle_message_all) (simp_all add: r k)
  moreover have "emitted (handle_message E (Arr (Str S # payload)) (m\<lparr>subscribers := [(S, cbs)]\<rparr>)) = []"
    by (simp add: handle_message_def k emitted_def)
  ultimately show ?thesis using r by (simp add: emitted_def raised_def)
qed

theorem envelope_routed_by_rewritten_topic_witness:
  "emitted (handle_message quiet (Arr [Str ''status'', Str ''42''])
      (init_model\<lparr>subscribers := [(''prob.status'', [Fn 1])]\<rparr>))
     = [Call 1 [Arr [Str ''prob.status'', Str ''42'']]]
 \<and> emitted (handle_message quiet (Arr [Str ''status'', Str ''42''])
      (init_model\<lparr>subscribers := [(''status'', [Fn 1])]\<rparr>)) = []"
  using envelope_routed_by_rewritten_topic
    [of quiet "''status''" "[Str ''42'']" "[Fn 1]" init_model]
  by (simp add: quiet_def returns_def callable_def)

text \<open>
  For a topic that is not a name of \<^verbatim>\<open>Object.prototype\<close>, \<^verbatim>\<open>addListener\<close> returns normally
  and puts the value, a function or not, at the end of the list of the topic; the lists of
  the other topics stay as they are.
\<close>

theorem addListener_stores_unchecked:
  assumes "t \<notin> set Object_prototype"
  shows "raised (addListener t c m) = None
       \<and> map_of (subscribers (final (addListener t c m))) t =
           Some ((case map_of (subscribers m) t of None \<Rightarrow> [] | Some l \<Rightarrow> l) @ [c])
       \<and> (k \<noteq> t \<longrightarrow> map_of (subscribers (final (addListener t c m))) k = map_of (subscribers m) k)"
  using addListener_appends[OF assms, of c m] addListener_other_topic[of k t c m]
  by (simp add: raised_def final_def)

theorem addListener_stores_unchecked_witness:
  "''status'' \<notin> set Object_prototype
 \<and> raised (addListener ''status'' (Data (Str ''not a function''))
      (init_model\<lparr>subscribers := [(''status'', [Fn 1])]\<rparr>)) = None
 \<and> map_of (subscribers (final (addListener ''status'' (Data (Str ''not a function''))
      (init_model\<lparr>subscribers := [(''status'', [Fn 1])]\<rparr>)))) ''status''
     = Some [Fn 1, Data (Str ''not a function'')]"
  using addListener_stores_unchecked
    [of "''status''" "Data (Str ''not a function'')" "init_model\<lparr>subscribers := [(''status'', [Fn 1])]\<rparr>" "''a''"]
  by (simp add: Object_prototype_def)

text \<open>
  An entry that is not a function is skipped with a \<^verbatim>\<open>debug.error\<close> line, and the entries
  after it are still handled, in \<^verbatim>\<open>handle_output\<close> and in \<^verbatim>\<open>updateListeners\<close>; in
  \<^verbatim>\<open>handle_message\<close> this holds once the global \<^verbatim>\<open>topic\<close> exists, and the line then names
  that global, not the topic of the message.
\<close>

theorem invalid_entry_skipped:
  "(map_of (subscribers m) t = Some cbs \<and> returns E [d] cbs \<longrightarrow>
      emitted (handle_output E t d m) = map (report t [d]) cbs
    \<and> raised (handle_output E t d m) = None)
 \<and> (all_return E (subscribers m) \<longrightarrow>
      emitted (updateListeners E m) = broadcast (for_in (subscribers m))
    \<and> raised (updateListeners E m) = None)
 \<and> (message \<noteq> Undefined \<and> parse_ok E (rewrite message)
    \<and> map_of (subscribers m) (routing_key message) = Some cbs
    \<and> returns E [rewrite message] cbs \<and> global_topic m = Some g \<longrightarrow>
      emitted (handle_message E message m) = map (report g [rewrite message]) cbs
    \<and> raised (handle_message E message m) = None)
 \<and> report t args (Data v) = DebugError t (Data v)"
proof (intro conjI impI)
  assume a: "map_of (subscribers m) t = Some cbs \<and> returns E [d] cbs"
  then have "handle_output E t d m = (map (report t [d]) cbs, None, m)"
    by (intro handle_output_all) auto
  then show "emitted (handle_output E t d m) = map (report t [d]) cbs"
    and "raised (handle_output E t d m) = None"
    by (simp_all add: emitted_def raised_def)
next
  assume "all_return E (subscribers m)"
  then have "all_return E (for_in (subscribers m))" by (simp only: all_return_for_in)
  from update_topics_all[OF this, of m]
  show "emitted (updateListeners E m) = broadcast (for_in (subscribers m))"
    and "raised (updateListeners E m) = None"
    by (simp_all add: updateListeners_def emitted_def raised_def)
next
  assume a: "message \<noteq> Undefined \<and> parse_ok E (rewrite message)
    \<and> map_of (subscribers m) (routing_key message) = Some cbs
    \<and> returns E [rewrite message] cbs \<and> global_topic m = Some g"
  then have "invoke_callbacks E (Some g) [rewrite message] cbs = (map (report g [rewrite message]) cbs, None)"
    by (intro invoke_all) auto
  then show "emitted (handle_message E message m) = map (report g [rewrite message]) cbs"
    and "raised (handle_message E message m) = None"
    using a by (simp_all add: handle_message_def emitted_def raised_def)
next
  show "report t args (Data v) = DebugError t (Data v)" by simp
qed

theorem invalid_entry_skipped_witness:
  "emitted (handle_output quiet ''outstream'' (Str ''x'')
      (init_model\<lparr>subscribers := [(''outstream'', [Fn 1, Data (Str ''oops''), Fn 2])]\<rparr>))
     = [Call 1 [Str ''x''], DebugError ''outstream'' (Data (Str ''oops'')), Call 2 [Str ''x'']]
 \<and> emitted (updateListeners quiet
      (init_model\<lparr>subscribers := [(''a'', [Fn 1, Data (Str ''oops''), Fn 2])]\<rparr>))
     = [Call 1 [], DebugError ''a'' (Data (Str ''oops'')), Call 2 []]
 \<and> emitted (handle_message quiet (Str ''[\"status\", 42]'')
      (init_model\<lparr>subscribers := [(''['', [Fn 1, Data (Str ''oops''), Fn 2])], global_topic := Some ''a''\<rparr>))
     = [Call 1 [Str ''[\"status\", 42]''], DebugError ''a'' (Data (Str ''oops'')),
        Call 2 [Str ''[\"status\", 42]'']]"
  using invalid_entry_skipped
    [of "init_model\<lparr>subscribers := [(''outstream'', [Fn 1, Data (Str ''oops''), Fn 2])]\<rparr>"
        "''outstream''" "[Fn 1, Data (Str ''oops''), Fn 2]" quiet "Str ''x''"]
    invalid_entry_skipped
    [of "init_model\<lparr>subscribers := [(''a'', [Fn 1, Data (Str ''oops''), Fn 2])]\<rparr>"
        "''a''" "[Fn 1, Data (Str ''oops''), Fn 2]" quiet "Str ''x''"]
    invalid_entry_skipped
    [of "init_model\<lparr>subscribers := [(''['', [Fn 1, Data (Str ''oops''), Fn 2])], global_topic := Some ''a''\<rparr>"
        "''[''" "[Fn 1, Data (Str ''oops''), Fn 2]" quiet "Str ''x''" "Str ''[\"status\", 42]''" "''a''"]
  by (simp add: quiet_def returns_def all_return_def subscribed_def broadcast_def outstream_topic_def
      routing_key_def rewrite_def for_in_def is_array_index_def is_digit_def decimal_def
      digit_value_def)

end
